theory Spec2Isabelle
  imports Complex_Main "HOL-Library.Stream"
begin

section \<open>Seeding procedures of afkmc2.py\<close>

text \<open>
  The four procedures \<open>kmpp\<close>, \<open>kmc2\<close>, \<open>afkmc2\<close> and \<open>afkmc2_mem\<close> of
  \<open>afkmc2.py\<close> are embedded as functions that take the dataset and the random source and
  return either the Python exception that ends the call or the array of centers together
  with the rest of the random source.

  The procedures are embedded twice. The first embedding (\<open>kmpp\<close>, \<open>kmc2\<close>, \<open>afkmc2\<close>,
  \<open>afkmc2_mem\<close>) computes with the real numbers: no rounding and no overflow. What numpy's
  \<open>float64\<close> does where the reals have no answer is kept: a division by zero gives an
  infinity or a nan (with a warning, not an exception), and every comparison with a nan
  is false. It is used where the control flow, the exceptions and the memory are at stake,
  and on inputs on which \<open>float64\<close> computes exactly. The second embedding (\<open>kmpp_fl\<close>,
  \<open>kmc2_fl\<close>, \<open>afkmc2_fl\<close>, \<open>afkmc2_mem_fl\<close>) takes the arithmetic as a parameter, so that
  what is proved of it for every arithmetic holds of the source on the \<open>float64\<close> of numpy,
  with its rounding, overflow and underflow. The dataset holds real numbers (finite
  \<open>float64\<close> values), and \<open>np.float\<close> is the \<open>float64\<close> of the numpy versions the source was
  written for.
\<close>

subsection \<open>Exceptions and results\<close>

datatype error = ValueError | IndexError | DrawOutOfRange | NoSuchArray

definition andthen :: "error + 'a \<Rightarrow> ('a \<Rightarrow> error + 'b) \<Rightarrow> error + 'b" where
  "andthen r f = (case r of Inl e \<Rightarrow> Inl e | Inr v \<Rightarrow> f v)"

fun mapE :: "('a \<Rightarrow> error + 'b) \<Rightarrow> 'a list \<Rightarrow> error + 'b list" where
  "mapE f [] = Inr []"
| "mapE f (x # xs) = andthen (f x) (\<lambda>y. andthen (mapE f xs) (\<lambda>ys. Inr (y # ys)))"

subsection \<open>numpy float64 values\<close>

datatype npfloat = Fin real | PInf | NInf | NaN

fun np_add :: "npfloat \<Rightarrow> npfloat \<Rightarrow> npfloat" where
  "np_add NaN _ = NaN"
| "np_add _ NaN = NaN"
| "np_add (Fin a) (Fin b) = Fin (a + b)"
| "np_add PInf NInf = NaN"
| "np_add NInf PInf = NaN"
| "np_add PInf _ = PInf"
| "np_add _ PInf = PInf"
| "np_add NInf _ = NInf"
| "np_add _ NInf = NInf"

definition signed_inf :: "bool \<Rightarrow> npfloat" where
  "signed_inf neg = (if neg then NInf else PInf)"

fun np_mul :: "npfloat \<Rightarrow> npfloat \<Rightarrow> npfloat" where
  "np_mul NaN _ = NaN"
| "np_mul _ NaN = NaN"
| "np_mul (Fin a) (Fin b) = Fin (a * b)"
| "np_mul (Fin a) PInf = (if a = 0 then NaN else signed_inf (a < 0))"
| "np_mul (Fin a) NInf = (if a = 0 then NaN else signed_inf (0 < a))"
| "np_mul PInf (Fin b) = (if b = 0 then NaN else signed_inf (b < 0))"
| "np_mul NInf (Fin b) = (if b = 0 then NaN else signed_inf (0 < b))"
| "np_mul PInf PInf = PInf"
| "np_mul NInf NInf = PInf"
| "np_mul PInf NInf = NInf"
| "np_mul NInf PInf = NInf"

text \<open>A zero divisor is the positive zero: the divisors of the source are sums and products
  of squared distances.\<close>

fun np_div :: "npfloat \<Rightarrow> npfloat \<Rightarrow> npfloat" where
  "np_div NaN _ = NaN"
| "np_div _ NaN = NaN"
| "np_div (Fin a) (Fin b) =
     (if b \<noteq> 0 then Fin (a / b) else if a = 0 then NaN else signed_inf (a < 0))"
| "np_div (Fin a) PInf = Fin 0"
| "np_div (Fin a) NInf = Fin 0"
| "np_div PInf (Fin b) = signed_inf (b < 0)"
| "np_div NInf (Fin b) = signed_inf (0 \<le> b)"
| "np_div PInf PInf = NaN"
| "np_div PInf NInf = NaN"
| "np_div NInf PInf = NaN"
| "np_div NInf NInf = NaN"

fun np_gt :: "npfloat \<Rightarrow> npfloat \<Rightarrow> bool" where
  "np_gt NaN _ = False"
| "np_gt _ NaN = False"
| "np_gt (Fin a) (Fin b) = (a > b)"
| "np_gt PInf PInf = False"
| "np_gt PInf _ = True"
| "np_gt NInf _ = False"
| "np_gt (Fin a) PInf = False"
| "np_gt (Fin a) NInf = True"

fun np_ge :: "npfloat \<Rightarrow> npfloat \<Rightarrow> bool" where
  "np_ge NaN _ = False"
| "np_ge _ NaN = False"
| "np_ge (Fin a) (Fin b) = (a \<ge> b)"
| "np_ge PInf _ = True"
| "np_ge NInf NInf = True"
| "np_ge NInf _ = False"
| "np_ge (Fin a) PInf = False"
| "np_ge (Fin a) NInf = True"

fun np_sum :: "npfloat list \<Rightarrow> npfloat" where
  "np_sum [] = Fin 0"
| "np_sum (x # xs) = np_add x (np_sum xs)"

fun cumsum_from :: "npfloat \<Rightarrow> npfloat list \<Rightarrow> npfloat list" where
  "cumsum_from acc [] = []"
| "cumsum_from acc (x # xs) = np_add acc x # cumsum_from (np_add acc x) xs"

fun cumsum :: "npfloat list \<Rightarrow> npfloat list" where
  "cumsum [] = []"
| "cumsum (x # xs) = x # cumsum_from x xs"

text \<open>\<open>np.where(mask)[0]\<close>: the indices at which the mask is true, in increasing order.\<close>

definition np_where :: "bool list \<Rightarrow> nat list" where
  "np_where bs = filter (\<lambda>i. bs ! i) [0..<length bs]"

subsection \<open>The random source\<close>

text \<open>
  The process-wide generator \<open>np.random\<close> is the stream of the indices and the stream of
  the numbers of [0, 1) it is going to hand out. \<open>np.random.choice\<close> raises \<open>ValueError\<close>
  on an empty population and on a vector \<open>p\<close> that is not a probability vector
  (a nan, a negative entry, a sum farther from 1 than the tolerance \<open>sqrt eps = 2^-26\<close>).
  An index of the stream that is not below the population size is no draw of numpy's; the
  model stops there with \<open>DrawOutOfRange\<close>.
\<close>

record rng =
  ints :: "nat stream"
  unifs :: "real stream"

definition choice :: "nat \<Rightarrow> rng \<Rightarrow> error + nat \<times> rng" where
  "choice n g =
     (if n = 0 then Inl ValueError
      else if shd (ints g) < n then Inr (shd (ints g), g\<lparr>ints := stl (ints g)\<rparr>)
      else Inl DrawOutOfRange)"

definition valid_p :: "npfloat list \<Rightarrow> bool" where
  "valid_p p =
     (case np_sum p of
        Fin s \<Rightarrow> \<not> list_ex (\<lambda>x. np_gt (Fin 0) x) p \<and> \<not> \<bar>s - 1\<bar> > 1 / 2 ^ 26
      | _ \<Rightarrow> False)"

definition choice_p :: "nat \<Rightarrow> npfloat list \<Rightarrow> rng \<Rightarrow> error + nat \<times> rng" where
  "choice_p n p g =
     (if n = 0 then Inl ValueError
      else if length p \<noteq> n then Inl ValueError
      else if \<not> valid_p p then Inl ValueError
      else if shd (ints g) < n then Inr (shd (ints g), g\<lparr>ints := stl (ints g)\<rparr>)
      else Inl DrawOutOfRange)"

definition uniform :: "rng \<Rightarrow> real \<times> rng" where
  "uniform g = (shd (unifs g), g\<lparr>unifs := stl (unifs g)\<rparr>)"

subsection \<open>Arrays and distances\<close>

text \<open>
  An array of shape (n, d) is the list of its n rows, each of length d; \<open>X.shape[1]\<close> is
  read off the first row (and is 0 for an array without rows, where no result depends on it).
\<close>

definition shape1 :: "real list list \<Rightarrow> nat" where
  "shape1 X = (case X of [] \<Rightarrow> 0 | r # _ \<Rightarrow> length r)"

definition np_zeros :: "nat \<Rightarrow> nat \<Rightarrow> real list list" where
  "np_zeros k d = replicate k (replicate d 0)"

text \<open>\<open>np.linalg.norm(a - c)**2\<close>\<close>

definition dist2 :: "real list \<Rightarrow> real list \<Rightarrow> real" where
  "dist2 a c = (sqrt (\<Sum>(x, y) \<leftarrow> zip a c. (x - y)\<^sup>2))\<^sup>2"

text \<open>Python's \<open>min\<close> of a list; it raises \<open>ValueError\<close> on the empty list.\<close>

fun py_min :: "real list \<Rightarrow> error + real" where
  "py_min [] = Inl ValueError"
| "py_min (x # xs) = Inr (fold min xs x)"

text \<open>\<open>min([np.linalg.norm(p - centers[j, :])**2 for j in range(i)])\<close>\<close>

definition closest :: "real list list \<Rightarrow> nat \<Rightarrow> real list \<Rightarrow> error + real" where
  "closest centers i p = py_min (map (\<lambda>j. dist2 p (centers ! j)) [0..<i])"

text \<open>
  The first two statements of every procedure: \<open>np.zeros((k, X.shape[1]))\<close> raises
  \<open>ValueError\<close> for a negative k; the right-hand side \<open>X[np.random.choice(n), :]\<close> is
  evaluated next; the store into \<open>centers[0, :]\<close> raises \<open>IndexError\<close> when k is 0.
\<close>

definition first_center :: "real list list \<Rightarrow> int \<Rightarrow> rng \<Rightarrow> error + real list list \<times> rng" where
  "first_center X k g =
     (if k < 0 then Inl ValueError
      else andthen (choice (length X) g) (\<lambda>(c, g1).
        if k = 0 then Inl IndexError
        else Inr ((np_zeros (nat k) (shape1 X))[0 := X ! c], g1)))"

subsection \<open>kmpp\<close>

definition kmpp_select :: "real list list \<Rightarrow> real list list \<Rightarrow> nat \<Rightarrow> rng \<Rightarrow> error + nat \<times> rng" where
  "kmpp_select X centers i g =
     andthen (mapE (closest centers i) X) (\<lambda>D2.
       let probs = map (\<lambda>d. np_div (Fin d) (Fin (sum_list D2))) D2;
           cumprobs = cumsum probs
       in case uniform g of (r, g1) \<Rightarrow>
            (case np_where (map (\<lambda>c. np_ge c (Fin r)) cumprobs) of
               [] \<Rightarrow> Inl IndexError
             | ind # _ \<Rightarrow> Inr (ind, g1)))"

fun kmpp_loop :: "real list list \<Rightarrow> nat list \<Rightarrow> real list list \<Rightarrow> rng \<Rightarrow> error + real list list \<times> rng" where
  "kmpp_loop X [] centers g = Inr (centers, g)"
| "kmpp_loop X (i # is) centers g =
     andthen (kmpp_select X centers i g) (\<lambda>(ind, g1).
       kmpp_loop X is (centers[i := X ! ind]) g1)"

definition kmpp :: "real list list \<Rightarrow> int \<Rightarrow> rng \<Rightarrow> error + real list list \<times> rng" where
  "kmpp X k g = andthen (first_center X k g) (\<lambda>(centers, g1). kmpp_loop X [1..<nat k] centers g1)"

subsection \<open>kmc2\<close>

definition kmc2_step ::
  "real list list \<Rightarrow> real list list \<Rightarrow> nat \<Rightarrow> nat \<times> real \<times> rng \<Rightarrow> error + nat \<times> real \<times> rng" where
  "kmc2_step X centers i s =
     (case s of (x, dx2, g) \<Rightarrow>
        andthen (choice (length X) g) (\<lambda>(y, g1).
        andthen (closest centers i (X ! y)) (\<lambda>dy2.
          case uniform g1 of (u, g2) \<Rightarrow>
            if np_gt (np_div (Fin dy2) (Fin dx2)) (Fin u) then Inr (y, dy2, g2)
            else Inr (x, dx2, g2))))"

fun kmc2_inner ::
  "real list list \<Rightarrow> real list list \<Rightarrow> nat \<Rightarrow> nat list \<Rightarrow> nat \<times> real \<times> rng \<Rightarrow> error + nat \<times> real \<times> rng" where
  "kmc2_inner X centers i [] s = Inr s"
| "kmc2_inner X centers i (j # js) s =
     andthen (kmc2_step X centers i s) (kmc2_inner X centers i js)"

definition kmc2_iter ::
  "real list list \<Rightarrow> int \<Rightarrow> nat \<Rightarrow> real list list \<Rightarrow> rng \<Rightarrow> error + real list list \<times> rng" where
  "kmc2_iter X m i centers g =
     andthen (choice (length X) g) (\<lambda>(x, g1).
     andthen (closest centers i (X ! x)) (\<lambda>dx2.
     andthen (kmc2_inner X centers i [1..<nat m] (x, dx2, g1)) (\<lambda>(x', dx2', g2).
       Inr (centers[i := X ! x'], g2))))"

fun kmc2_loop ::
  "real list list \<Rightarrow> int \<Rightarrow> nat list \<Rightarrow> real list list \<Rightarrow> rng \<Rightarrow> error + real list list \<times> rng" where
  "kmc2_loop X m [] centers g = Inr (centers, g)"
| "kmc2_loop X m (i # is) centers g =
     andthen (kmc2_iter X m i centers g) (\<lambda>(centers', g1). kmc2_loop X m is centers' g1)"

definition kmc2 :: "real list list \<Rightarrow> int \<Rightarrow> int \<Rightarrow> rng \<Rightarrow> error + real list list \<times> rng" where
  "kmc2 X k m g =
     andthen (first_center X k g) (\<lambda>(centers, g1). kmc2_loop X m [1..<nat k] centers g1)"

subsection \<open>afkmc2\<close>

text \<open>\<open>q = d2/(2*np.sum(d2)) + 1/(2.0*X.shape[0])\<close>; the procedures reach this line with a
  dataset that has a row, so that \<open>2.0*X.shape[0]\<close> is not zero.\<close>

definition proposal :: "real list \<Rightarrow> nat \<Rightarrow> npfloat list" where
  "proposal d2 n =
     map (\<lambda>d. np_add (np_div (Fin d) (Fin (2 * sum_list d2))) (Fin (1 / (2 * real n)))) d2"

definition afkmc2_step ::
  "real list list \<Rightarrow> npfloat list \<Rightarrow> real list list \<Rightarrow> nat \<Rightarrow> nat \<times> real \<times> rng
     \<Rightarrow> error + nat \<times> real \<times> rng" where
  "afkmc2_step X q centers i s =
     (case s of (x, dx2, g) \<Rightarrow>
        andthen (choice_p (length X) q g) (\<lambda>(y, g1).
        andthen (closest centers i (X ! y)) (\<lambda>dy2.
          case uniform g1 of (u, g2) \<Rightarrow>
            if np_gt (np_div (np_mul (Fin dy2) (q ! x)) (np_mul (Fin dx2) (q ! y))) (Fin u)
            then Inr (y, dy2, g2)
            else Inr (x, dx2, g2))))"

fun afkmc2_inner ::
  "real list list \<Rightarrow> npfloat list \<Rightarrow> real list list \<Rightarrow> nat \<Rightarrow> nat list \<Rightarrow> nat \<times> real \<times> rng
     \<Rightarrow> error + nat \<times> real \<times> rng" where
  "afkmc2_inner X q centers i [] s = Inr s"
| "afkmc2_inner X q centers i (j # js) s =
     andthen (afkmc2_step X q centers i s) (afkmc2_inner X q centers i js)"

definition afkmc2_iter ::
  "real list list \<Rightarrow> int \<Rightarrow> npfloat list \<Rightarrow> nat \<Rightarrow> real list list \<Rightarrow> rng
     \<Rightarrow> error + real list list \<times> rng" where
  "afkmc2_iter X m q i centers g =
     andthen (choice_p (length X) q g) (\<lambda>(x, g1).
     andthen (closest centers i (X ! x)) (\<lambda>dx2.
     andthen (afkmc2_inner X q centers i [1..<nat m] (x, dx2, g1)) (\<lambda>(x', dx2', g2).
       Inr (centers[i := X ! x'], g2))))"

fun afkmc2_loop ::
  "real list list \<Rightarrow> int \<Rightarrow> npfloat list \<Rightarrow> nat list \<Rightarrow> real list list \<Rightarrow> rng
     \<Rightarrow> error + real list list \<times> rng" where
  "afkmc2_loop X m q [] centers g = Inr (centers, g)"
| "afkmc2_loop X m q (i # is) centers g =
     andthen (afkmc2_iter X m q i centers g) (\<lambda>(centers', g1). afkmc2_loop X m q is centers' g1)"

definition afkmc2_q :: "real list list \<Rightarrow> real list \<Rightarrow> npfloat list" where
  "afkmc2_q X c0 = proposal (map (\<lambda>i. dist2 (X ! i) c0) [0..<length X]) (length X)"

definition afkmc2 :: "real list list \<Rightarrow> int \<Rightarrow> int \<Rightarrow> rng \<Rightarrow> error + real list list \<times> rng" where
  "afkmc2 X k m g =
     andthen (first_center X k g) (\<lambda>(centers, g1).
       afkmc2_loop X m (afkmc2_q X (centers ! 0)) [1..<nat k] centers g1)"

subsection \<open>afkmc2_mem\<close>

text \<open>
  \<open>d_store = np.empty((n, k))\<close> is an array that numpy does not initialise: its first
  content is whatever the memory held, a parameter of the procedure here. The closure
  \<open>distance\<close> reads and writes it; the table is passed in and handed back.
\<close>

type_synonym memo = "nat \<times> nat \<Rightarrow> real"

definition distance :: "real list list \<Rightarrow> real list list \<Rightarrow> memo \<Rightarrow> nat \<Rightarrow> nat \<Rightarrow> real \<times> memo" where
  "distance X centers d_store i j =
     (if d_store (i, j) = 0
      then (dist2 (X ! i) (centers ! j), d_store((i, j) := dist2 (X ! i) (centers ! j)))
      else (d_store (i, j), d_store))"

text \<open>\<open>[distance(x, j) for j in range(i)]\<close>, the calls made from left to right.\<close>

fun distances_to ::
  "real list list \<Rightarrow> real list list \<Rightarrow> memo \<Rightarrow> nat \<Rightarrow> nat list \<Rightarrow> real list \<times> memo" where
  "distances_to X centers d_store x [] = ([], d_store)"
| "distances_to X centers d_store x (j # js) =
     (case distance X centers d_store x j of (v, st1) \<Rightarrow>
        case distances_to X centers st1 x js of (vs, st2) \<Rightarrow> (v # vs, st2))"

text \<open>\<open>[distance(i, 0) for i in range(X.shape[0])]\<close>\<close>

fun distances_first ::
  "real list list \<Rightarrow> real list list \<Rightarrow> memo \<Rightarrow> nat list \<Rightarrow> real list \<times> memo" where
  "distances_first X centers d_store [] = ([], d_store)"
| "distances_first X centers d_store (i # is) =
     (case distance X centers d_store i 0 of (v, st1) \<Rightarrow>
        case distances_first X centers st1 is of (vs, st2) \<Rightarrow> (v # vs, st2))"

definition closest_mem ::
  "real list list \<Rightarrow> real list list \<Rightarrow> memo \<Rightarrow> nat \<Rightarrow> nat \<Rightarrow> error + real \<times> memo" where
  "closest_mem X centers d_store i x =
     (case distances_to X centers d_store x [0..<i] of (vs, st) \<Rightarrow>
        andthen (py_min vs) (\<lambda>d. Inr (d, st)))"

definition afkmc2_mem_step ::
  "real list list \<Rightarrow> npfloat list \<Rightarrow> real list list \<Rightarrow> nat \<Rightarrow> nat \<times> real \<times> memo \<times> rng
     \<Rightarrow> error + nat \<times> real \<times> memo \<times> rng" where
  "afkmc2_mem_step X q centers i s =
     (case s of (x, dx2, d_store, g) \<Rightarrow>
        andthen (choice_p (length X) q g) (\<lambda>(y, g1).
        andthen (closest_mem X centers d_store i y) (\<lambda>(dy2, st1).
          case uniform g1 of (u, g2) \<Rightarrow>
            if np_gt (np_div (np_mul (Fin dy2) (q ! x)) (np_mul (Fin dx2) (q ! y))) (Fin u)
            then Inr (y, dy2, st1, g2)
            else Inr (x, dx2, st1, g2))))"

fun afkmc2_mem_inner ::
  "real list list \<Rightarrow> npfloat list \<Rightarrow> real list list \<Rightarrow> nat \<Rightarrow> nat list
     \<Rightarrow> nat \<times> real \<times> memo \<times> rng \<Rightarrow> error + nat \<times> real \<times> memo \<times> rng" where
  "afkmc2_mem_inner X q centers i [] s = Inr s"
| "afkmc2_mem_inner X q centers i (j # js) s =
     andthen (afkmc2_mem_step X q centers i s) (afkmc2_mem_inner X q centers i js)"

definition afkmc2_mem_iter ::
  "real list list \<Rightarrow> int \<Rightarrow> npfloat list \<Rightarrow> nat \<Rightarrow> real list list \<times> memo \<times> rng
     \<Rightarrow> error + real list list \<times> memo \<times> rng" where
  "afkmc2_mem_iter X m q i s =
     (case s of (centers, d_store, g) \<Rightarrow>
        andthen (choice_p (length X) q g) (\<lambda>(x, g1).
        andthen (closest_mem X centers d_store i x) (\<lambda>(dx2, st1).
        andthen (afkmc2_mem_inner X q centers i [1..<nat m] (x, dx2, st1, g1))
          (\<lambda>(x', dx2', st2, g2). Inr (centers[i := X ! x'], st2, g2)))))"

fun afkmc2_mem_loop ::
  "real list list \<Rightarrow> int \<Rightarrow> npfloat list \<Rightarrow> nat list \<Rightarrow> real list list \<times> memo \<times> rng
     \<Rightarrow> error + real list list \<times> memo \<times> rng" where
  "afkmc2_mem_loop X m q [] s = Inr s"
| "afkmc2_mem_loop X m q (i # is) s =
     andthen (afkmc2_mem_iter X m q i s) (afkmc2_mem_loop X m q is)"

definition afkmc2_mem_q :: "real list list \<Rightarrow> real list list \<Rightarrow> memo \<Rightarrow> npfloat list \<times> memo" where
  "afkmc2_mem_q X centers d_store =
     (case distances_first X centers d_store [0..<length X] of
        (d2, st) \<Rightarrow> (proposal d2 (length X), st))"

definition afkmc2_mem ::
  "memo \<Rightarrow> real list list \<Rightarrow> int \<Rightarrow> int \<Rightarrow> rng \<Rightarrow> error + real list list \<times> rng" where
  "afkmc2_mem d_store X k m g =
     andthen (first_center X k g) (\<lambda>(centers, g1).
       case afkmc2_mem_q X centers d_store of (q, st) \<Rightarrow>
         andthen (afkmc2_mem_loop X m q [1..<nat k] (centers, st, g1))
           (\<lambda>(centers', st', g2). Inr (centers', g2)))"

subsection \<open>Well-formed random sources\<close>

text \<open>What numpy's generator hands out: indices below the population size \<open>n\<close> and
  numbers of [0, 1).\<close>

definition draws_ok :: "nat \<Rightarrow> rng \<Rightarrow> bool" where
  "draws_ok n g \<longleftrightarrow> (\<forall>i \<in> sset (ints g). i < n) \<and> (\<forall>u \<in> sset (unifs g). 0 \<le> u \<and> u < 1)"

subsection \<open>The procedures as the specification describes them\<close>

text \<open>
  The definitions of this subsection are written from the words of the specification, to
  be compared with the functions of the source above. \<open>min_d2\<close> is the least squared
  distance of a point to the first i centers. \<open>moves a b u\<close> is the test \<open>a/b > u\<close> of a
  chain step on squared distances, which are not negative: for \<open>b = 0\<close> the quotient of
  numpy is inf when \<open>a > 0\<close> and nan when \<open>a = 0\<close>.
\<close>

definition min_d2 :: "real list list \<Rightarrow> nat \<Rightarrow> real list \<Rightarrow> real" where
  "min_d2 centers i p = Min ((\<lambda>j. dist2 p (centers ! j)) ` {..<i})"

definition moves :: "real \<Rightarrow> real \<Rightarrow> real \<Rightarrow> bool" where
  "moves a b u = (if b = 0 then 0 < a else u < a / b)"

text \<open>A step of a chain of kmc2 with the index y proposed and the number u drawn, a chain
  of length m on the draws of the random source, and the k - 1 chains one after the other;
  \<open>skip a b\<close> is the random source after a indices and b numbers have been taken.\<close>

definition spec_move ::
  "real list list \<Rightarrow> real list list \<Rightarrow> nat \<Rightarrow> nat \<times> real \<Rightarrow> nat \<times> real \<Rightarrow> nat \<times> real" where
  "spec_move X centers i s p =
     (case s of (x, dx2) \<Rightarrow> case p of (y, u) \<Rightarrow>
        if moves (min_d2 centers i (X ! y)) dx2 u then (y, min_d2 centers i (X ! y)) else (x, dx2))"

definition spec_chain :: "real list list \<Rightarrow> real list list \<Rightarrow> nat \<Rightarrow> nat \<Rightarrow> rng \<Rightarrow> nat" where
  "spec_chain X centers i m g =
     fst (foldl (spec_move X centers i)
            (shd (ints g), min_d2 centers i (X ! shd (ints g)))
            (zip (stake (m - 1) (stl (ints g))) (stake (m - 1) (unifs g))))"

definition skip :: "nat \<Rightarrow> nat \<Rightarrow> rng \<Rightarrow> rng" where
  "skip a b g = \<lparr>ints = sdrop a (ints g), unifs = sdrop b (unifs g)\<rparr>"

fun spec_kmc2_chains ::
  "real list list \<Rightarrow> nat \<Rightarrow> nat \<Rightarrow> nat \<Rightarrow> real list list \<Rightarrow> rng \<Rightarrow> real list list \<times> rng" where
  "spec_kmc2_chains X m i 0 centers g = (centers, g)"
| "spec_kmc2_chains X m i (Suc r) centers g =
     spec_kmc2_chains X m (Suc i) r (centers[i := X ! spec_chain X centers i m g]) (skip m (m - 1) g)"

subsection \<open>Predicates of the proofs\<close>


definition centers_from :: "real list list \<Rightarrow> nat \<Rightarrow> real list list \<Rightarrow> bool" where
  "centers_from X i centers \<longleftrightarrow> list_all (\<lambda>j. centers ! j \<in> set X) [0..<i]"

definition memo_ok :: "real list list \<Rightarrow> real list list \<Rightarrow> nat \<Rightarrow> memo \<Rightarrow> bool" where
  "memo_ok X centers f st \<longleftrightarrow>
     (\<forall>i j. st (i, j) = 0 \<or> (j < f \<and> st (i, j) = dist2 (X ! i) (centers ! j)))"

subsection \<open>The procedures on a store of arrays\<close>

text \<open>
  For the questions of sharing, the arrays live in a store: the list of the arrays
  allocated so far, an array's address being its position. The caller passes the address
  of X; \<open>np.zeros\<close> allocates a new array; \<open>centers[i] = X[x, :]\<close> overwrites row i of the
  array at the address of \<open>centers\<close> with the values of row x of the array at the address
  of X; the procedure returns the address of \<open>centers\<close>. Between two such stores the
  source only reads the two arrays, so each selection is the function of the sections
  above, applied to the arrays as the store holds them at that moment. The table
  \<open>d_store\<close> and the random source are locals of the call and stay values. An address
  without an array is no reference of Python's (\<open>NoSuchArray\<close>).
\<close>

type_synonym store = "real list list list"

definition alloc :: "store \<Rightarrow> real list list \<Rightarrow> nat \<times> store" where
  "alloc h v = (length h, h @ [v])"

definition store_row :: "store \<Rightarrow> nat \<Rightarrow> nat \<Rightarrow> real list \<Rightarrow> store" where
  "store_row h a i v = h[a := (h ! a)[i := v]]"

definition first_center_st :: "store \<Rightarrow> nat \<Rightarrow> int \<Rightarrow> rng \<Rightarrow> error + nat \<times> store \<times> rng" where
  "first_center_st h aX k g =
     (if \<not> aX < length h then Inl NoSuchArray
      else if k < 0 then Inl ValueError
      else case alloc h (np_zeros (nat k) (shape1 (h ! aX))) of (ac, h1) \<Rightarrow>
        andthen (choice (length (h1 ! aX)) g) (\<lambda>(c, g1).
          if k = 0 then Inl IndexError
          else Inr (ac, store_row h1 ac 0 (h1 ! aX ! c), g1)))"

fun kmpp_loop_st :: "nat \<Rightarrow> nat \<Rightarrow> nat list \<Rightarrow> store \<Rightarrow> rng \<Rightarrow> error + store \<times> rng" where
  "kmpp_loop_st aX ac [] h g = Inr (h, g)"
| "kmpp_loop_st aX ac (i # is) h g =
     andthen (kmpp_select (h ! aX) (h ! ac) i g) (\<lambda>(ind, g1).
       kmpp_loop_st aX ac is (store_row h ac i (h ! aX ! ind)) g1)"

definition kmpp_st :: "store \<Rightarrow> nat \<Rightarrow> int \<Rightarrow> rng \<Rightarrow> error + nat \<times> store \<times> rng" where
  "kmpp_st h aX k g =
     andthen (first_center_st h aX k g) (\<lambda>(ac, h1, g1).
       andthen (kmpp_loop_st aX ac [1..<nat k] h1 g1) (\<lambda>(h2, g2). Inr (ac, h2, g2)))"

text \<open>The chain of a slot, up to the store into \<open>centers[i]\<close>: the index it ends at.\<close>

definition kmc2_chain ::
  "real list list \<Rightarrow> int \<Rightarrow> nat \<Rightarrow> real list list \<Rightarrow> rng \<Rightarrow> error + nat \<times> rng" where
  "kmc2_chain X m i centers g =
     andthen (choice (length X) g) (\<lambda>(x, g1).
     andthen (closest centers i (X ! x)) (\<lambda>dx2.
     andthen (kmc2_inner X centers i [1..<nat m] (x, dx2, g1)) (\<lambda>(x', dx2', g2). Inr (x', g2))))"

fun kmc2_loop_st :: "nat \<Rightarrow> nat \<Rightarrow> int \<Rightarrow> nat list \<Rightarrow> store \<Rightarrow> rng \<Rightarrow> error + store \<times> rng" where
  "kmc2_loop_st aX ac m [] h g = Inr (h, g)"
| "kmc2_loop_st aX ac m (i # is) h g =
     andthen (kmc2_chain (h ! aX) m i (h ! ac) g) (\<lambda>(x, g1).
       kmc2_loop_st aX ac m is (store_row h ac i (h ! aX ! x)) g1)"

definition kmc2_st :: "store \<Rightarrow> nat \<Rightarrow> int \<Rightarrow> int \<Rightarrow> rng \<Rightarrow> error + nat \<times> store \<times> rng" where
  "kmc2_st h aX k m g =
     andthen (first_center_st h aX k g) (\<lambda>(ac, h1, g1).
       andthen (kmc2_loop_st aX ac m [1..<nat k] h1 g1) (\<lambda>(h2, g2). Inr (ac, h2, g2)))"

definition afkmc2_chain ::
  "real list list \<Rightarrow> int \<Rightarrow> npfloat list \<Rightarrow> nat \<Rightarrow> real list list \<Rightarrow> rng \<Rightarrow> error + nat \<times> rng" where
  "afkmc2_chain X m q i centers g =
     andthen (choice_p (length X) q g) (\<lambda>(x, g1).
     andthen (closest centers i (X ! x)) (\<lambda>dx2.
     andthen (afkmc2_inner X q centers i [1..<nat m] (x, dx2, g1)) (\<lambda>(x', dx2', g2). Inr (x', g2))))"

fun afkmc2_loop_st ::
  "nat \<Rightarrow> nat \<Rightarrow> int \<Rightarrow> npfloat list \<Rightarrow> nat list \<Rightarrow> store \<Rightarrow> rng \<Rightarrow> error + store \<times> rng" where
  "afkmc2_loop_st aX ac m q [] h g = Inr (h, g)"
| "afkmc2_loop_st aX ac m q (i # is) h g =
     andthen (afkmc2_chain (h ! aX) m q i (h ! ac) g) (\<lambda>(x, g1).
       afkmc2_loop_st aX ac m q is (store_row h ac i (h ! aX ! x)) g1)"

definition afkmc2_st :: "store \<Rightarrow> nat \<Rightarrow> int \<Rightarrow> int \<Rightarrow> rng \<Rightarrow> error + nat \<times> store \<times> rng" where
  "afkmc2_st h aX k m g =
     andthen (first_center_st h aX k g) (\<lambda>(ac, h1, g1).
       andthen (afkmc2_loop_st aX ac m (afkmc2_q (h1 ! aX) (h1 ! ac ! 0)) [1..<nat k] h1 g1)
         (\<lambda>(h2, g2). Inr (ac, h2, g2)))"

definition afkmc2_mem_chain ::
  "real list list \<Rightarrow> int \<Rightarrow> npfloat list \<Rightarrow> nat \<Rightarrow> real list list \<Rightarrow> memo \<Rightarrow> rng
     \<Rightarrow> error + nat \<times> memo \<times> rng" where
  "afkmc2_mem_chain X m q i centers d_store g =
     andthen (choice_p (length X) q g) (\<lambda>(x, g1).
     andthen (closest_mem X centers d_store i x) (\<lambda>(dx2, st1).
     andthen (afkmc2_mem_inner X q centers i [1..<nat m] (x, dx2, st1, g1))
       (\<lambda>(x', dx2', st2, g2). Inr (x', st2, g2))))"

fun afkmc2_mem_loop_st ::
  "nat \<Rightarrow> nat \<Rightarrow> int \<Rightarrow> npfloat list \<Rightarrow> nat list \<Rightarrow> store \<Rightarrow> memo \<Rightarrow> rng
     \<Rightarrow> error + store \<times> memo \<times> rng" where
  "afkmc2_mem_loop_st aX ac m q [] h d_store g = Inr (h, d_store, g)"
| "afkmc2_mem_loop_st aX ac m q (i # is) h d_store g =
     andthen (afkmc2_mem_chain (h ! aX) m q i (h ! ac) d_store g) (\<lambda>(x, st1, g1).
       afkmc2_mem_loop_st aX ac m q is (store_row h ac i (h ! aX ! x)) st1 g1)"

definition afkmc2_mem_st ::
  "memo \<Rightarrow> store \<Rightarrow> nat \<Rightarrow> int \<Rightarrow> int \<Rightarrow> rng \<Rightarrow> error + nat \<times> store \<times> rng" where
  "afkmc2_mem_st d_store h aX k m g =
     andthen (first_center_st h aX k g) (\<lambda>(ac, h1, g1).
       case afkmc2_mem_q (h1 ! aX) (h1 ! ac) d_store of (q, st) \<Rightarrow>
         andthen (afkmc2_mem_loop_st aX ac m q [1..<nat k] h1 st g1)
           (\<lambda>(h2, st', g2). Inr (ac, h2, g2)))"

text \<open>What a call leaves behind: the store it found, and one new array, the centers.\<close>

definition returns_new ::
  "store \<Rightarrow> error + real list list \<times> rng \<Rightarrow> error + nat \<times> store \<times> rng" where
  "returns_new h r =
     (case r of Inl e \<Rightarrow> Inl e | Inr (centers, g') \<Rightarrow> Inr (length h, h @ [centers], g'))"

subsection \<open>The procedures over the arithmetic of float64\<close>

text \<open>
  The functions above compute with the real numbers. The source computes with
  \<open>float64\<close>: its sums, products, quotients and norms are rounded, overflow to inf and
  underflow to zero, and the order in which \<open>np.sum\<close> and \<open>np.linalg.norm\<close> add is numpy's
  own. None of that is in the source; here it is a parameter. An \<open>arith\<close> gives what numpy
  returns for \<open>np.linalg.norm(a - c)**2\<close>, for \<open>+\<close>, \<open>*\<close> and \<open>/\<close> on \<open>float64\<close>, for
  \<open>np.sum\<close>, and the verdict of \<open>np.random.choice\<close> on a vector \<open>p\<close> (it raises
  \<open>ValueError\<close> on the vectors it does not accept). Comparisons of \<open>float64\<close> values are
  exact and stay \<open>np_gt\<close> and \<open>np_ge\<close>. What is proved of the functions of this subsection
  for every \<open>arith\<close> holds of the source on the arithmetic of numpy. The real arithmetic
  of the sections above is one \<open>arith\<close>, \<open>real_arith\<close>.
\<close>

record arith =
  fl_dist2 :: "real list \<Rightarrow> real list \<Rightarrow> npfloat"
  fl_add :: "npfloat \<Rightarrow> npfloat \<Rightarrow> npfloat"
  fl_mul :: "npfloat \<Rightarrow> npfloat \<Rightarrow> npfloat"
  fl_div :: "npfloat \<Rightarrow> npfloat \<Rightarrow> npfloat"
  fl_sum :: "npfloat list \<Rightarrow> npfloat"
  fl_accepts :: "npfloat list \<Rightarrow> bool"

definition real_arith :: arith where
  "real_arith =
     \<lparr>fl_dist2 = (\<lambda>a c. Fin (dist2 a c)), fl_add = np_add, fl_mul = np_mul, fl_div = np_div,
      fl_sum = np_sum, fl_accepts = valid_p\<rparr>"

text \<open>
  The random source: the indices \<open>np.random.choice(n)\<close> is going to return, what
  \<open>np.random.choice(n, p=q)\<close> is going to return, each as a function of the vector \<open>p\<close> it is
  given, and the numbers \<open>np.random.uniform()\<close> is going to return.
\<close>

record source =
  index_draws :: "nat stream"
  weighted_draws :: "(npfloat list \<Rightarrow> nat) stream"
  unit_draws :: "real stream"

definition choice_fl :: "nat \<Rightarrow> source \<Rightarrow> error + nat \<times> source" where
  "choice_fl n g =
     (if n = 0 then Inl ValueError
      else if shd (index_draws g) < n
      then Inr (shd (index_draws g), g\<lparr>index_draws := stl (index_draws g)\<rparr>)
      else Inl DrawOutOfRange)"

definition choice_p_fl :: "arith \<Rightarrow> nat \<Rightarrow> npfloat list \<Rightarrow> source \<Rightarrow> error + nat \<times> source" where
  "choice_p_fl ar n p g =
     (if n = 0 then Inl ValueError
      else if length p \<noteq> n then Inl ValueError
      else if \<not> fl_accepts ar p then Inl ValueError
      else if shd (weighted_draws g) p < n
      then Inr (shd (weighted_draws g) p, g\<lparr>weighted_draws := stl (weighted_draws g)\<rparr>)
      else Inl DrawOutOfRange)"

definition uniform_fl :: "source \<Rightarrow> real \<times> source" where
  "uniform_fl g = (shd (unit_draws g), g\<lparr>unit_draws := stl (unit_draws g)\<rparr>)"

text \<open>Python's \<open>min\<close> keeps its first item and replaces it by each later item that is
  \<open><\<close> it; an item that is nan never is.\<close>

fun py_min_fl :: "npfloat list \<Rightarrow> error + npfloat" where
  "py_min_fl [] = Inl ValueError"
| "py_min_fl (x # xs) = Inr (fold (\<lambda>v best. if np_gt best v then v else best) xs x)"

definition closest_fl :: "arith \<Rightarrow> real list list \<Rightarrow> nat \<Rightarrow> real list \<Rightarrow> error + npfloat" where
  "closest_fl ar centers i p = py_min_fl (map (\<lambda>j. fl_dist2 ar p (centers ! j)) [0..<i])"

definition first_center_fl ::
  "real list list \<Rightarrow> int \<Rightarrow> source \<Rightarrow> error + real list list \<times> source" where
  "first_center_fl X k g =
     (if k < 0 then Inl ValueError
      else andthen (choice_fl (length X) g) (\<lambda>(c, g1).
        if k = 0 then Inl IndexError
        else Inr ((np_zeros (nat k) (shape1 X))[0 := X ! c], g1)))"

text \<open>\<open>cumsum\<close> adds from left to right.\<close>

fun cumsum_from_fl :: "arith \<Rightarrow> npfloat \<Rightarrow> npfloat list \<Rightarrow> npfloat list" where
  "cumsum_from_fl ar acc [] = []"
| "cumsum_from_fl ar acc (x # xs) = fl_add ar acc x # cumsum_from_fl ar (fl_add ar acc x) xs"

fun cumsum_fl :: "arith \<Rightarrow> npfloat list \<Rightarrow> npfloat list" where
  "cumsum_fl ar [] = []"
| "cumsum_fl ar (x # xs) = x # cumsum_from_fl ar x xs"

definition kmpp_select_fl ::
  "arith \<Rightarrow> real list list \<Rightarrow> real list list \<Rightarrow> nat \<Rightarrow> source \<Rightarrow> error + nat \<times> source" where
  "kmpp_select_fl ar X centers i g =
     andthen (mapE (closest_fl ar centers i) X) (\<lambda>D2.
       let probs = map (\<lambda>d. fl_div ar d (fl_sum ar D2)) D2;
           cumprobs = cumsum_fl ar probs
       in case uniform_fl g of (r, g1) \<Rightarrow>
            (case np_where (map (\<lambda>c. np_ge c (Fin r)) cumprobs) of
               [] \<Rightarrow> Inl IndexError
             | ind # _ \<Rightarrow> Inr (ind, g1)))"

fun kmpp_loop_fl ::
  "arith \<Rightarrow> real list list \<Rightarrow> nat list \<Rightarrow> real list list \<Rightarrow> source
     \<Rightarrow> error + real list list \<times> source" where
  "kmpp_loop_fl ar X [] centers g = Inr (centers, g)"
| "kmpp_loop_fl ar X (i # is) centers g =
     andthen (kmpp_select_fl ar X centers i g) (\<lambda>(ind, g1).
       kmpp_loop_fl ar X is (centers[i := X ! ind]) g1)"

definition kmpp_fl :: "arith \<Rightarrow> real list list \<Rightarrow> int \<Rightarrow> source \<Rightarrow> error + real list list \<times> source" where
  "kmpp_fl ar X k g =
     andthen (first_center_fl X k g) (\<lambda>(centers, g1). kmpp_loop_fl ar X [1..<nat k] centers g1)"

definition kmc2_step_fl ::
  "arith \<Rightarrow> real list list \<Rightarrow> real list list \<Rightarrow> nat \<Rightarrow> nat \<times> npfloat \<times> source
     \<Rightarrow> error + nat \<times> npfloat \<times> source" where
  "kmc2_step_fl ar X centers i s =
     (case s of (x, dx2, g) \<Rightarrow>
        andthen (choice_fl (length X) g) (\<lambda>(y, g1).
        andthen (closest_fl ar centers i (X ! y)) (\<lambda>dy2.
          case uniform_fl g1 of (u, g2) \<Rightarrow>
            if np_gt (fl_div ar dy2 dx2) (Fin u) then Inr (y, dy2, g2)
            else Inr (x, dx2, g2))))"

fun kmc2_inner_fl ::
  "arith \<Rightarrow> real list list \<Rightarrow> real list list \<Rightarrow> nat \<Rightarrow> nat list \<Rightarrow> nat \<times> npfloat \<times> source
     \<Rightarrow> error + nat \<times> npfloat \<times> source" where
  "kmc2_inner_fl ar X centers i [] s = Inr s"
| "kmc2_inner_fl ar X centers i (j # js) s =
     andthen (kmc2_step_fl ar X centers i s) (kmc2_inner_fl ar X centers i js)"

definition kmc2_iter_fl ::
  "arith \<Rightarrow> real list list \<Rightarrow> int \<Rightarrow> nat \<Rightarrow> real list list \<Rightarrow> source
     \<Rightarrow> error + real list list \<times> source" where
  "kmc2_iter_fl ar X m i centers g =
     andthen (choice_fl (length X) g) (\<lambda>(x, g1).
     andthen (closest_fl ar centers i (X ! x)) (\<lambda>dx2.
     andthen (kmc2_inner_fl ar X centers i [1..<nat m] (x, dx2, g1)) (\<lambda>(x', dx2', g2).
       Inr (centers[i := X ! x'], g2))))"

fun kmc2_loop_fl ::
  "arith \<Rightarrow> real list list \<Rightarrow> int \<Rightarrow> nat list \<Rightarrow> real list list \<Rightarrow> source
     \<Rightarrow> error + real list list \<times> source" where
  "kmc2_loop_fl ar X m [] centers g = Inr (centers, g)"
| "kmc2_loop_fl ar X m (i # is) centers g =
     andthen (kmc2_iter_fl ar X m i centers g) (\<lambda>(centers', g1).
       kmc2_loop_fl ar X m is centers' g1)"

definition kmc2_fl ::
  "arith \<Rightarrow> real list list \<Rightarrow> int \<Rightarrow> int \<Rightarrow> source \<Rightarrow> error + real list list \<times> source" where
  "kmc2_fl ar X k m g =
     andthen (first_center_fl X k g) (\<lambda>(centers, g1).
       kmc2_loop_fl ar X m [1..<nat k] centers g1)"

text \<open>\<open>q = d2/(2*np.sum(d2)) + 1/(2.0*X.shape[0])\<close>\<close>

definition proposal_fl :: "arith \<Rightarrow> npfloat list \<Rightarrow> nat \<Rightarrow> npfloat list" where
  "proposal_fl ar d2 n =
     map (\<lambda>d. fl_add ar (fl_div ar d (fl_mul ar (Fin 2) (fl_sum ar d2)))
                (fl_div ar (Fin 1) (fl_mul ar (Fin 2) (Fin (real n))))) d2"

definition afkmc2_q_fl :: "arith \<Rightarrow> real list list \<Rightarrow> real list \<Rightarrow> npfloat list" where
  "afkmc2_q_fl ar X c0 =
     proposal_fl ar (map (\<lambda>i. fl_dist2 ar (X ! i) c0) [0..<length X]) (length X)"

definition afkmc2_step_fl ::
  "arith \<Rightarrow> real list list \<Rightarrow> npfloat list \<Rightarrow> real list list \<Rightarrow> nat \<Rightarrow> nat \<times> npfloat \<times> source
     \<Rightarrow> error + nat \<times> npfloat \<times> source" where
  "afkmc2_step_fl ar X q centers i s =
     (case s of (x, dx2, g) \<Rightarrow>
        andthen (choice_p_fl ar (length X) q g) (\<lambda>(y, g1).
        andthen (closest_fl ar centers i (X ! y)) (\<lambda>dy2.
          case uniform_fl g1 of (u, g2) \<Rightarrow>
            if np_gt (fl_div ar (fl_mul ar dy2 (q ! x)) (fl_mul ar dx2 (q ! y))) (Fin u)
            then Inr (y, dy2, g2)
            else Inr (x, dx2, g2))))"

fun afkmc2_inner_fl ::
  "arith \<Rightarrow> real list list \<Rightarrow> npfloat list \<Rightarrow> real list list \<Rightarrow> nat \<Rightarrow> nat list
     \<Rightarrow> nat \<times> npfloat \<times> source \<Rightarrow> error + nat \<times> npfloat \<times> source" where
  "afkmc2_inner_fl ar X q centers i [] s = Inr s"
| "afkmc2_inner_fl ar X q centers i (j # js) s =
     andthen (afkmc2_step_fl ar X q centers i s) (afkmc2_inner_fl ar X q centers i js)"

definition afkmc2_iter_fl ::
  "arith \<Rightarrow> real list list \<Rightarrow> int \<Rightarrow> npfloat list \<Rightarrow> nat \<Rightarrow> real list list \<Rightarrow> source
     \<Rightarrow> error + real list list \<times> source" where
  "afkmc2_iter_fl ar X m q i centers g =
     andthen (choice_p_fl ar (length X) q g) (\<lambda>(x, g1).
     andthen (closest_fl ar centers i (X ! x)) (\<lambda>dx2.
     andthen (afkmc2_inner_fl ar X q centers i [1..<nat m] (x, dx2, g1)) (\<lambda>(x', dx2', g2).
       Inr (centers[i := X ! x'], g2))))"

fun afkmc2_loop_fl ::
  "arith \<Rightarrow> real list list \<Rightarrow> int \<Rightarrow> npfloat list \<Rightarrow> nat list \<Rightarrow> real list list \<Rightarrow> source
     \<Rightarrow> error + real list list \<times> source" where
  "afkmc2_loop_fl ar X m q [] centers g = Inr (centers, g)"
| "afkmc2_loop_fl ar X m q (i # is) centers g =
     andthen (afkmc2_iter_fl ar X m q i centers g) (\<lambda>(centers', g1).
       afkmc2_loop_fl ar X m q is centers' g1)"

definition afkmc2_fl ::
  "arith \<Rightarrow> real list list \<Rightarrow> int \<Rightarrow> int \<Rightarrow> source \<Rightarrow> error + real list list \<times> source" where
  "afkmc2_fl ar X k m g =
     andthen (first_center_fl X k g) (\<lambda>(centers, g1).
       afkmc2_loop_fl ar X m (afkmc2_q_fl ar X (centers ! 0)) [1..<nat k] centers g1)"












subsection \<open>Well-formed random sources, over float64\<close>

text \<open>
  What numpy draws: \<open>np.random.choice(n)\<close> and \<open>np.random.choice(n, p=q)\<close> return an index
  below n, whatever the vector \<open>p\<close>, and \<open>np.random.uniform()\<close> a number of [0, 1).
  \<open>skip_fl a b c\<close> is the source after a draws of the first kind, b of the second and c of
  the third.
\<close>

definition draws_ok_fl :: "nat \<Rightarrow> source \<Rightarrow> bool" where
  "draws_ok_fl n g \<longleftrightarrow>
     (\<forall>i \<in> sset (index_draws g). i < n) \<and>
     (\<forall>f \<in> sset (weighted_draws g). \<forall>p. f p < n) \<and>
     (\<forall>u \<in> sset (unit_draws g). 0 \<le> u \<and> u < 1)"

definition skip_fl :: "nat \<Rightarrow> nat \<Rightarrow> nat \<Rightarrow> source \<Rightarrow> source" where
  "skip_fl a b c g =
     \<lparr>index_draws = sdrop a (index_draws g), weighted_draws = sdrop b (weighted_draws g),
      unit_draws = sdrop c (unit_draws g)\<rparr>"

subsection \<open>The procedures as the specification describes them, over float64\<close>

text \<open>
  \<open>min_dist ar centers i p\<close> is the least of the squared distances of p to the centers
  0, ..., i - 1, as Python's \<open>min\<close> finds it: the first, replaced by each later one that
  is \<open><\<close> the least so far.

  A chain (\<open>walk\<close>) starts at the index \<open>x0\<close> with its distance \<open>d2 x0\<close>; for each proposal
  \<open>(y, u)\<close>, an index and a number of [0, 1), it goes to y with the distance \<open>d2 y\<close> when
  \<open>test\<close> holds of the current index, its distance, y, its distance and u, and stays
  otherwise; its value is the index it ends at. \<open>fill\<close> fills the slots i, ..., i + r - 1 of
  the centers, each with the point of the dataset at the index \<open>pick\<close> returns for the slot.
\<close>

definition min_dist :: "arith \<Rightarrow> real list list \<Rightarrow> nat \<Rightarrow> real list \<Rightarrow> npfloat" where
  "min_dist ar centers i p =
     fold (\<lambda>j best. if np_gt best (fl_dist2 ar p (centers ! j)) then fl_dist2 ar p (centers ! j) else best)
       [1..<i] (fl_dist2 ar p (centers ! 0))"

definition walk ::
  "(nat \<Rightarrow> npfloat) \<Rightarrow> (nat \<Rightarrow> npfloat \<Rightarrow> nat \<Rightarrow> npfloat \<Rightarrow> real \<Rightarrow> bool) \<Rightarrow> nat \<Rightarrow> (nat \<times> real) list
     \<Rightarrow> nat" where
  "walk d2 test x0 proposals =
     fst (foldl (\<lambda>s p. case s of (x, dx2) \<Rightarrow> case p of (y, u) \<Rightarrow>
                   if test x dx2 y (d2 y) u then (y, d2 y) else (x, dx2))
            (x0, d2 x0) proposals)"

fun fill ::
  "(nat \<Rightarrow> real list list \<Rightarrow> source \<Rightarrow> nat) \<Rightarrow> (source \<Rightarrow> source) \<Rightarrow> real list list \<Rightarrow> nat \<Rightarrow> nat
     \<Rightarrow> real list list \<Rightarrow> source \<Rightarrow> real list list \<times> source" where
  "fill pick after X i 0 centers g = (centers, g)"
| "fill pick after X i (Suc r) centers g =
     fill pick after X (Suc i) r (centers[i := X ! pick i centers g]) (after g)"

text \<open>
  \<open>kmc2\<close>: the chain of a slot starts at the next index drawn, proposes the next m - 1
  indices drawn, each with the next number drawn, and goes to the proposal exactly when
  \<open>dy2/dx2 > u\<close>. A slot takes m indices and m - 1 numbers from the random source.
\<close>

definition spec_kmc2_slot ::
  "arith \<Rightarrow> real list list \<Rightarrow> nat \<Rightarrow> nat \<Rightarrow> real list list \<Rightarrow> source \<Rightarrow> nat" where
  "spec_kmc2_slot ar X m i centers g =
     walk (\<lambda>y. min_dist ar centers i (X ! y))
       (\<lambda>x dx2 y dy2 u. np_gt (fl_div ar dy2 dx2) (Fin u))
       (shd (index_draws g))
       (zip (stake (m - 1) (stl (index_draws g))) (stake (m - 1) (unit_draws g)))"

definition spec_kmc2 ::
  "arith \<Rightarrow> real list list \<Rightarrow> nat \<Rightarrow> nat \<Rightarrow> source \<Rightarrow> real list list \<times> source" where
  "spec_kmc2 ar X k m g =
     fill (spec_kmc2_slot ar X m) (skip_fl m 0 (m - 1)) X 1 (k - 1)
       ((np_zeros k (shape1 X))[0 := X ! shd (index_draws g)]) (skip_fl 1 0 0 g)"

text \<open>
  \<open>afkmc2\<close>: the same with the indices that \<open>np.random.choice\<close> draws with the vector q,
  and the test \<open>(dy2 q(x))/(dx2 q(y)) > u\<close>.
\<close>

definition spec_afkmc2_slot ::
  "arith \<Rightarrow> real list list \<Rightarrow> npfloat list \<Rightarrow> nat \<Rightarrow> nat \<Rightarrow> real list list \<Rightarrow> source \<Rightarrow> nat" where
  "spec_afkmc2_slot ar X q m i centers g =
     walk (\<lambda>y. min_dist ar centers i (X ! y))
       (\<lambda>x dx2 y dy2 u. np_gt (fl_div ar (fl_mul ar dy2 (q ! x)) (fl_mul ar dx2 (q ! y))) (Fin u))
       (shd (weighted_draws g) q)
       (zip (map (\<lambda>f. f q) (stake (m - 1) (stl (weighted_draws g)))) (stake (m - 1) (unit_draws g)))"

definition spec_afkmc2 ::
  "arith \<Rightarrow> real list list \<Rightarrow> nat \<Rightarrow> nat \<Rightarrow> source \<Rightarrow> real list list \<times> source" where
  "spec_afkmc2 ar X k m g =
     fill (spec_afkmc2_slot ar X (afkmc2_q_fl ar X (X ! shd (index_draws g))) m)
       (skip_fl 0 m (m - 1)) X 1 (k - 1)
       ((np_zeros k (shape1 X))[0 := X ! shd (index_draws g)]) (skip_fl 1 0 0 g)"

text \<open>
  \<open>kmpp\<close>: \<open>spec_cumprob ar D2 j\<close> is the cumulated normalised \<open>D2\<close> at the index j, the
  quotients \<open>D2[0]/\<Sum>D2\<close>, ..., \<open>D2[j]/\<Sum>D2\<close> added from left to right; \<open>spec_pick\<close> is the
  first index of the dataset at which it is \<open>\<ge> r\<close>, if there is one. A slot without such
  an index ends the call with \<open>IndexError\<close>; otherwise the point at the index is stored in
  the slot.
\<close>

definition spec_cumprob :: "arith \<Rightarrow> npfloat list \<Rightarrow> nat \<Rightarrow> npfloat" where
  "spec_cumprob ar D2 j =
     foldl (fl_add ar) (fl_div ar (D2 ! 0) (fl_sum ar D2))
       (map (\<lambda>d. fl_div ar d (fl_sum ar D2)) (take j (tl D2)))"

definition spec_pick :: "arith \<Rightarrow> real list list \<Rightarrow> real list list \<Rightarrow> nat \<Rightarrow> real \<Rightarrow> nat option" where
  "spec_pick ar X centers i r =
     find (\<lambda>j. np_ge (spec_cumprob ar (map (min_dist ar centers i) X) j) (Fin r)) [0..<length X]"

fun spec_kmpp_slots ::
  "arith \<Rightarrow> real list list \<Rightarrow> nat \<Rightarrow> nat \<Rightarrow> real list list \<Rightarrow> source
     \<Rightarrow> error + real list list \<times> source" where
  "spec_kmpp_slots ar X i 0 centers g = Inr (centers, g)"
| "spec_kmpp_slots ar X i (Suc r) centers g =
     (case spec_pick ar X centers i (shd (unit_draws g)) of
        None \<Rightarrow> Inl IndexError
      | Some ind \<Rightarrow> spec_kmpp_slots ar X (Suc i) r (centers[i := X ! ind]) (skip_fl 0 0 1 g))"

definition spec_kmpp :: "arith \<Rightarrow> real list list \<Rightarrow> nat \<Rightarrow> source \<Rightarrow> error + real list list \<times> source" where
  "spec_kmpp ar X k g =
     spec_kmpp_slots ar X 1 (k - 1)
       ((np_zeros k (shape1 X))[0 := X ! shd (index_draws g)]) (skip_fl 1 0 0 g)"



section \<open>Basic facts\<close>

lemma andthen_simps [simp]:
  "andthen (Inl e) f = Inl e"
  "andthen (Inr v) f = f v"
  by (simp_all add: andthen_def)

lemma dist2_eq: "dist2 a c = (\<Sum>(x, y) \<leftarrow> zip a c. (x - y)\<^sup>2)"
proof -
  have "0 \<le> (\<Sum>(x, y) \<leftarrow> zip a c. (x - y)\<^sup>2)"
    by (rule sum_list_nonneg) auto
  then show ?thesis
    by (simp add: dist2_def)
qed

lemma draws_ok_ints: "draws_ok n g \<Longrightarrow> draws_ok n (g\<lparr>ints := stl (ints g)\<rparr>)"
  by (auto simp: draws_ok_def dest: stl_sset)

lemma draws_ok_shd: "draws_ok n g \<Longrightarrow> shd (ints g) < n"
  by (simp add: draws_ok_def shd_sset)

lemma choice_ok:
  "draws_ok n g \<Longrightarrow> choice n g = (if n = 0 then Inl ValueError else Inr (shd (ints g), g\<lparr>ints := stl (ints g)\<rparr>))"
  by (simp add: choice_def draws_ok_shd)

lemma dist2_nonneg: "0 \<le> dist2 a c"
  by (simp add: dist2_def)

lemma sum_sq_zero_iff:
  "length a = length c \<Longrightarrow> (\<Sum>(x, y) \<leftarrow> zip a c. (x - y)\<^sup>2) = 0 \<longleftrightarrow> a = (c :: real list)"
proof (induction a c rule: list_induct2)
  case Nil
  then show ?case by simp
next
  case (Cons x xs y ys)
  have nn: "0 \<le> (\<Sum>(x, y) \<leftarrow> zip xs ys. (x - y)\<^sup>2)"
    by (rule sum_list_nonneg) auto
  have "(x - y)\<^sup>2 + (\<Sum>(x, y) \<leftarrow> zip xs ys. (x - y)\<^sup>2) = 0
        \<longleftrightarrow> (x - y)\<^sup>2 = 0 \<and> (\<Sum>(x, y) \<leftarrow> zip xs ys. (x - y)\<^sup>2) = 0"
    using nn by (simp add: add_nonneg_eq_0_iff)
  with Cons.IH show ?case by simp
qed

lemma dist2_zero_iff: "length a = length c \<Longrightarrow> dist2 a c = 0 \<longleftrightarrow> a = c"
  by (simp add: dist2_eq sum_sq_zero_iff)

lemma dist2_self: "dist2 a a = 0"
  by (simp add: dist2_zero_iff)

lemma py_min_Min:
  assumes "xs \<noteq> []"
  shows "py_min xs = Inr (Min (set xs))"
proof (cases xs)
  case Nil
  with assms show ?thesis by simp
next
  case (Cons a list)
  then show ?thesis
    using Min.set_eq_fold [of a list] by simp
qed

lemma closest_Min:
  "0 < i \<Longrightarrow> closest centers i p = Inr (Min ((\<lambda>j. dist2 p (centers ! j)) ` {..<i}))"
  by (simp add: closest_def py_min_Min lessThan_atLeast0)

lemma mapE_Inr: "(\<And>x. x \<in> set xs \<Longrightarrow> f x = Inr (h x)) \<Longrightarrow> mapE f xs = Inr (map h xs)"
  by (induction xs) simp_all

lemma first_center_ok:
  "draws_ok (length X) g \<Longrightarrow> X \<noteq> [] \<Longrightarrow> 0 < k \<Longrightarrow>
   first_center X k g =
     Inr ((np_zeros (nat k) (shape1 X))[0 := X ! shd (ints g)], g\<lparr>ints := stl (ints g)\<rparr>)"
  by (simp add: first_center_def choice_ok)

lemma first_center_neg: "k < 0 \<Longrightarrow> first_center X k g = Inl ValueError"
  by (simp add: first_center_def)

lemma first_center_empty: "first_center [] k g = Inl ValueError"
  by (simp add: first_center_def choice_def)

lemma first_center_zero:
  "X \<noteq> [] \<Longrightarrow> shd (ints g) < length X \<Longrightarrow> first_center X 0 g = Inl IndexError"
  by (simp add: first_center_def choice_def)

lemma kmc2_loop_m: "[1..<nat m] = [1..<nat m'] \<Longrightarrow> kmc2_loop X m is cs g = kmc2_loop X m' is cs g"
proof (induction "is" arbitrary: cs g)
  case Nil
  then show ?case by simp
next
  case (Cons i "is")
  have "kmc2_iter X m i cs g = kmc2_iter X m' i cs g"
    using Cons.prems by (simp add: kmc2_iter_def)
  moreover have "(\<lambda>(c, h). kmc2_loop X m is c h) = (\<lambda>(c, h). kmc2_loop X m' is c h)"
    using Cons by auto
  ultimately show ?case by simp
qed

lemma afkmc2_loop_m: "[1..<nat m] = [1..<nat m'] \<Longrightarrow> afkmc2_loop X m q is cs g = afkmc2_loop X m' q is cs g"
proof (induction "is" arbitrary: cs g)
  case Nil
  then show ?case by simp
next
  case (Cons i "is")
  have "afkmc2_iter X m q i cs g = afkmc2_iter X m' q i cs g"
    using Cons.prems by (simp add: afkmc2_iter_def)
  moreover have "(\<lambda>(c, h). afkmc2_loop X m q is c h) = (\<lambda>(c, h). afkmc2_loop X m' q is c h)"
    using Cons by auto
  ultimately show ?case by simp
qed

lemma afkmc2_mem_loop_m: "[1..<nat m] = [1..<nat m'] \<Longrightarrow> afkmc2_mem_loop X m q is s = afkmc2_mem_loop X m' q is s"
proof (induction "is" arbitrary: s)
  case Nil
  then show ?case by simp
next
  case (Cons i "is")
  have "afkmc2_mem_iter X m q i s = afkmc2_mem_iter X m' q i s"
    using Cons.prems by (simp add: afkmc2_mem_iter_def)
  moreover have "afkmc2_mem_loop X m q is = afkmc2_mem_loop X m' q is"
    using Cons by blast
  ultimately show ?case by simp
qed


lemma map_nth_upt: "map (\<lambda>i. f (X ! i)) [0..<length X] = map f X"
proof -
  have "map f X = map f (map ((!) X) [0..<length X])"
    by (simp only: map_nth)
  also have "\<dots> = map (\<lambda>i. f (X ! i)) [0..<length X]"
    by (simp only: map_map comp_def)
  finally show ?thesis by (rule sym)
qed


lemma distance_ok:
  assumes "memo_ok X cs f st" and "j < f"
  shows "\<exists>st'. distance X cs st i j = (dist2 (X ! i) (cs ! j), st') \<and> memo_ok X cs f st'"
proof (cases "st (i, j) = 0")
  case True
  then show ?thesis
    using assms by (auto simp: distance_def memo_ok_def)
next
  case False
  then have "st (i, j) = dist2 (X ! i) (cs ! j)"
    using assms by (auto simp: memo_ok_def)
  with False assms show ?thesis
    by (simp add: distance_def)
qed

lemma distances_to_ok:
  "memo_ok X cs f st \<Longrightarrow> \<forall>j \<in> set js. j < f \<Longrightarrow>
   \<exists>st'. distances_to X cs st x js = (map (\<lambda>j. dist2 (X ! x) (cs ! j)) js, st')
         \<and> memo_ok X cs f st'"
proof (induction js arbitrary: st)
  case Nil
  then show ?case by simp
next
  case (Cons j js)
  obtain st1 where 1: "distance X cs st x j = (dist2 (X ! x) (cs ! j), st1)" "memo_ok X cs f st1"
    using distance_ok [of X cs f st j x] Cons.prems by auto
  obtain st2 where 2: "distances_to X cs st1 x js = (map (\<lambda>j. dist2 (X ! x) (cs ! j)) js, st2)"
      "memo_ok X cs f st2"
    using Cons.IH [OF 1(2)] Cons.prems(2) by auto
  show ?case by (simp add: 1 2)
qed

lemma distances_first_ok:
  "memo_ok X cs f st \<Longrightarrow> 0 < f \<Longrightarrow>
   \<exists>st'. distances_first X cs st is = (map (\<lambda>i. dist2 (X ! i) (cs ! 0)) is, st')
         \<and> memo_ok X cs f st'"
proof (induction "is" arbitrary: st)
  case Nil
  then show ?case by simp
next
  case (Cons i "is")
  obtain st1 where 1: "distance X cs st i 0 = (dist2 (X ! i) (cs ! 0), st1)" "memo_ok X cs f st1"
    using distance_ok [of X cs f st 0 i] Cons.prems by auto
  obtain st2 where 2: "distances_first X cs st1 is = (map (\<lambda>i. dist2 (X ! i) (cs ! 0)) is, st2)"
      "memo_ok X cs f st2"
    using Cons.IH [OF 1(2)] Cons.prems(2) by auto
  show ?case by (simp add: 1 2)
qed

lemma closest_mem_ok:
  assumes "memo_ok X cs f st" and "i \<le> f"
  shows "\<exists>st'. closest_mem X cs st i x = andthen (closest cs i (X ! x)) (\<lambda>d. Inr (d, st'))
         \<and> memo_ok X cs f st'"
proof -
  obtain st' where "distances_to X cs st x [0..<i] = (map (\<lambda>j. dist2 (X ! x) (cs ! j)) [0..<i], st')"
    "memo_ok X cs f st'"
    using distances_to_ok [of X cs f st "[0..<i]" x] assms by auto
  then show ?thesis
    by (auto simp: closest_mem_def closest_def)
qed

lemma afkmc2_mem_q_ok:
  assumes "memo_ok X cs f st" and "0 < f"
  shows "\<exists>st'. afkmc2_mem_q X cs st = (afkmc2_q X (cs ! 0), st') \<and> memo_ok X cs f st'"
proof -
  obtain st' where "distances_first X cs st [0..<length X]
      = (map (\<lambda>i. dist2 (X ! i) (cs ! 0)) [0..<length X], st')" "memo_ok X cs f st'"
    using distances_first_ok [OF assms] by blast
  then show ?thesis
    by (auto simp: afkmc2_mem_q_def afkmc2_q_def)
qed

lemma afkmc2_mem_step_ok:
  assumes "memo_ok X cs f st" and "i \<le> f"
  shows "(\<exists>e. afkmc2_step X q cs i (x, dx2, g) = Inl e \<and>
              afkmc2_mem_step X q cs i (x, dx2, st, g) = Inl e) \<or>
         (\<exists>x' d' g' st'. afkmc2_step X q cs i (x, dx2, g) = Inr (x', d', g') \<and>
              afkmc2_mem_step X q cs i (x, dx2, st, g) = Inr (x', d', st', g') \<and>
              memo_ok X cs f st')"
proof (cases "choice_p (length X) q g")
  case (Inl e)
  then show ?thesis
    by (simp add: afkmc2_step_def afkmc2_mem_step_def)
next
  case (Inr yg)
  obtain y g1 where yg: "yg = (y, g1)" by (cases yg)
  obtain st' where cm: "closest_mem X cs st i y = andthen (closest cs i (X ! y)) (\<lambda>d. Inr (d, st'))"
    and ok: "memo_ok X cs f st'"
    using closest_mem_ok [OF assms] by blast
  show ?thesis
  proof (cases "closest cs i (X ! y)")
    case (Inl e)
    then show ?thesis
      by (simp add: afkmc2_step_def afkmc2_mem_step_def Inr yg cm)
  next
    case (Inr dy2)
    then show ?thesis
      using ok by (simp add: afkmc2_step_def afkmc2_mem_step_def \<open>choice_p (length X) q g = Inr yg\<close>
          yg cm uniform_def)
  qed
qed

lemma afkmc2_mem_inner_ok:
  assumes "i \<le> f"
  shows "memo_ok X cs f st \<Longrightarrow>
         (\<exists>e. afkmc2_inner X q cs i js (x, dx2, g) = Inl e \<and>
              afkmc2_mem_inner X q cs i js (x, dx2, st, g) = Inl e) \<or>
         (\<exists>x' d' g' st'. afkmc2_inner X q cs i js (x, dx2, g) = Inr (x', d', g') \<and>
              afkmc2_mem_inner X q cs i js (x, dx2, st, g) = Inr (x', d', st', g') \<and>
              memo_ok X cs f st')"
proof (induction js arbitrary: x dx2 g st)
  case Nil
  then show ?case by simp
next
  case (Cons j js)
  have "(\<exists>e. afkmc2_step X q cs i (x, dx2, g) = Inl e \<and>
              afkmc2_mem_step X q cs i (x, dx2, st, g) = Inl e) \<or>
         (\<exists>x' d' g' st'. afkmc2_step X q cs i (x, dx2, g) = Inr (x', d', g') \<and>
              afkmc2_mem_step X q cs i (x, dx2, st, g) = Inr (x', d', st', g') \<and>
              memo_ok X cs f st')"
    by (rule afkmc2_mem_step_ok [OF Cons.prems assms])
  then show ?case
  proof (elim disjE exE conjE)
    fix e
    assume "afkmc2_step X q cs i (x, dx2, g) = Inl e"
      "afkmc2_mem_step X q cs i (x, dx2, st, g) = Inl e"
    then show ?thesis by simp
  next
    fix x' d' g' st'
    assume "afkmc2_step X q cs i (x, dx2, g) = Inr (x', d', g')"
      "afkmc2_mem_step X q cs i (x, dx2, st, g) = Inr (x', d', st', g')"
      "memo_ok X cs f st'"
    then show ?thesis
      using Cons.IH [of st' x' d' g'] by simp
  qed
qed

lemma memo_ok_update: "memo_ok X cs i st \<Longrightarrow> memo_ok X (cs[i := v]) (Suc i) st"
  by (auto simp: memo_ok_def less_Suc_eq) (metis nat_neq_iff nth_list_update_neq)

lemma afkmc2_mem_iter_ok:
  assumes "memo_ok X cs i st"
  shows "(\<exists>e. afkmc2_iter X m q i cs g = Inl e \<and>
              afkmc2_mem_iter X m q i (cs, st, g) = Inl e) \<or>
         (\<exists>cs' g' st'. afkmc2_iter X m q i cs g = Inr (cs', g') \<and>
              afkmc2_mem_iter X m q i (cs, st, g) = Inr (cs', st', g') \<and>
              memo_ok X cs' (Suc i) st')"
proof (cases "choice_p (length X) q g")
  case (Inl e)
  then show ?thesis
    by (simp add: afkmc2_iter_def afkmc2_mem_iter_def)
next
  case (Inr xg)
  obtain x g1 where xg: "xg = (x, g1)" by (cases xg)
  obtain st1 where cm: "closest_mem X cs st i x = andthen (closest cs i (X ! x)) (\<lambda>d. Inr (d, st1))"
    and ok: "memo_ok X cs i st1"
    using closest_mem_ok [OF assms order_refl] by blast
  show ?thesis
  proof (cases "closest cs i (X ! x)")
    case (Inl e)
    then show ?thesis
      by (simp add: afkmc2_iter_def afkmc2_mem_iter_def Inr xg cm)
  next
    case dx: (Inr dx2)
    have "(\<exists>e. afkmc2_inner X q cs i [1..<nat m] (x, dx2, g1) = Inl e \<and>
              afkmc2_mem_inner X q cs i [1..<nat m] (x, dx2, st1, g1) = Inl e) \<or>
         (\<exists>x' d' g' st'. afkmc2_inner X q cs i [1..<nat m] (x, dx2, g1) = Inr (x', d', g') \<and>
              afkmc2_mem_inner X q cs i [1..<nat m] (x, dx2, st1, g1) = Inr (x', d', st', g') \<and>
              memo_ok X cs i st')"
      by (rule afkmc2_mem_inner_ok [OF order_refl ok])
    then show ?thesis
    proof (elim disjE exE conjE)
      fix e
      assume "afkmc2_inner X q cs i [1..<nat m] (x, dx2, g1) = Inl e"
        "afkmc2_mem_inner X q cs i [1..<nat m] (x, dx2, st1, g1) = Inl e"
      then show ?thesis
        by (simp add: afkmc2_iter_def afkmc2_mem_iter_def Inr xg cm dx)
    next
      fix x' d' g' st'
      assume "afkmc2_inner X q cs i [1..<nat m] (x, dx2, g1) = Inr (x', d', g')"
        "afkmc2_mem_inner X q cs i [1..<nat m] (x, dx2, st1, g1) = Inr (x', d', st', g')"
        "memo_ok X cs i st'"
      then show ?thesis
        by (simp add: afkmc2_iter_def afkmc2_mem_iter_def Inr xg cm dx memo_ok_update)
    qed
  qed
qed

lemma afkmc2_mem_loop_ok:
  "memo_ok X cs i0 st \<Longrightarrow> is = [i0..<k] \<Longrightarrow>
   andthen (afkmc2_mem_loop X m q is (cs, st, g)) (\<lambda>(cs', st', g'). Inr (cs', g'))
     = afkmc2_loop X m q is cs g"
proof (induction "is" arbitrary: cs st g i0)
  case Nil
  then show ?case by simp
next
  case (Cons i "is")
  from Cons.prems(2) [symmetric] have i: "i = i0" and rest: "is = [Suc i0..<k]"
    by (auto simp: upt_eq_Cons_conv)
  have "memo_ok X cs i st" using Cons.prems(1) i by simp
  then have "(\<exists>e. afkmc2_iter X m q i cs g = Inl e \<and>
              afkmc2_mem_iter X m q i (cs, st, g) = Inl e) \<or>
         (\<exists>cs' g' st'. afkmc2_iter X m q i cs g = Inr (cs', g') \<and>
              afkmc2_mem_iter X m q i (cs, st, g) = Inr (cs', st', g') \<and>
              memo_ok X cs' (Suc i) st')"
    by (rule afkmc2_mem_iter_ok)
  then show ?case
  proof (elim disjE exE conjE)
    fix e
    assume "afkmc2_iter X m q i cs g = Inl e" "afkmc2_mem_iter X m q i (cs, st, g) = Inl e"
    then show ?thesis by simp
  next
    fix cs' g' st'
    assume "afkmc2_iter X m q i cs g = Inr (cs', g')"
      "afkmc2_mem_iter X m q i (cs, st, g) = Inr (cs', st', g')"
      "memo_ok X cs' (Suc i) st'"
    then show ?thesis
      using Cons.IH [of cs' "Suc i0" st' g'] i rest by simp
  qed
qed

lemma afkmc2_mem_zero: "afkmc2_mem (\<lambda>_. 0) X k m g = afkmc2 X k m g"
proof (cases "first_center X k g")
  case (Inl e)
  then show ?thesis by (simp add: afkmc2_mem_def afkmc2_def)
next
  case (Inr cg)
  obtain cs g1 where cg: "cg = (cs, g1)" by (cases cg)
  have "memo_ok X cs 1 (\<lambda>_. 0)" by (simp add: memo_ok_def)
  then obtain st where q: "afkmc2_mem_q X cs (\<lambda>_. 0) = (afkmc2_q X (cs ! 0), st)"
    and ok: "memo_ok X cs 1 st"
    using afkmc2_mem_q_ok [of X cs 1 "\<lambda>_. 0"] by auto
  have "[1..<nat k] = [1..<nat k]" ..
  from afkmc2_mem_loop_ok [OF ok this]
  show ?thesis
    by (simp add: afkmc2_mem_def afkmc2_def Inr cg q)
qed

lemma closest_min_d2: "0 < i \<Longrightarrow> closest centers i p = Inr (min_d2 centers i p)"
  by (simp add: closest_Min min_d2_def)

lemma min_d2_nonneg: "0 < i \<Longrightarrow> 0 \<le> min_d2 centers i p"
  unfolding min_d2_def by (subst Min_ge_iff) (auto simp: dist2_nonneg)

lemma np_ratio_moves:
  "0 \<le> a \<Longrightarrow> 0 \<le> b \<Longrightarrow> np_gt (np_div (Fin a) (Fin b)) (Fin u) = moves a b u"
  by (auto simp: moves_def signed_inf_def)

lemma sset_sdrop_in: "x \<in> sset (sdrop n s) \<Longrightarrow> x \<in> sset s"
  by (induction n arbitrary: s) (auto dest: stl_sset)

lemma draws_ok_skip: "draws_ok n g \<Longrightarrow> draws_ok n (skip a b g)"
  by (auto simp: draws_ok_def skip_def dest: sset_sdrop_in)

lemma kmc2_step_eq:
  assumes "draws_ok (length X) g" and "X \<noteq> []" and "0 < i" and "0 \<le> dx2"
  shows "kmc2_step X cs i (x, dx2, g) =
     Inr (fst (spec_move X cs i (x, dx2) (shd (ints g), shd (unifs g))),
          snd (spec_move X cs i (x, dx2) (shd (ints g), shd (unifs g))),
          skip 1 1 g)"
proof -
  have g: "g\<lparr>ints := stl (ints g), unifs := stl (unifs g)\<rparr> = skip 1 1 g"
    by (simp add: skip_def)
  have r: "np_gt (np_div (Fin (min_d2 cs i (X ! shd (ints g)))) (Fin dx2)) (Fin (shd (unifs g)))
      = moves (min_d2 cs i (X ! shd (ints g))) dx2 (shd (unifs g))"
    using assms by (intro np_ratio_moves min_d2_nonneg)
  show ?thesis
    using assms
    by (simp add: kmc2_step_def choice_ok closest_min_d2 uniform_def r spec_move_def g
        del: np_div.simps np_gt.simps)
qed

lemma spec_move_nonneg: "0 < i \<Longrightarrow> 0 \<le> dx2 \<Longrightarrow> 0 \<le> snd (spec_move X cs i (x, dx2) p)"
  by (cases p) (simp add: spec_move_def min_d2_nonneg)

lemma skip_skip: "skip a b (skip c d g) = skip (c + a) (d + b) g"
  by (simp add: skip_def)

lemma kmc2_inner_eq:
  assumes "X \<noteq> []" and "0 < i"
  shows "draws_ok (length X) g \<Longrightarrow> 0 \<le> dx2 \<Longrightarrow>
     kmc2_inner X cs i js (x, dx2, g) =
       Inr (fst (foldl (spec_move X cs i) (x, dx2)
                  (zip (stake (length js) (ints g)) (stake (length js) (unifs g)))),
            snd (foldl (spec_move X cs i) (x, dx2)
                  (zip (stake (length js) (ints g)) (stake (length js) (unifs g)))),
            skip (length js) (length js) g)"
proof (induction js arbitrary: x dx2 g)
  case Nil
  then show ?case by (simp add: skip_def)
next
  case (Cons j js)
  let ?s = "spec_move X cs i (x, dx2) (shd (ints g), shd (unifs g))"
  have step: "kmc2_step X cs i (x, dx2, g) = Inr (fst ?s, snd ?s, skip 1 1 g)"
    using kmc2_step_eq [OF Cons.prems(1) assms Cons.prems(2)] .
  have ok: "draws_ok (length X) (skip 1 1 g)"
    using Cons.prems(1) by (rule draws_ok_skip)
  have nn: "0 \<le> snd ?s"
    using assms(2) Cons.prems(2) by (rule spec_move_nonneg)
  have tl: "ints (skip (Suc 0) (Suc 0) g) = stl (ints g)"
    "unifs (skip (Suc 0) (Suc 0) g) = stl (unifs g)"
    by (simp_all add: skip_def)
  show ?case
    using Cons.IH [OF ok nn, of "fst ?s"]
    by (simp add: step tl skip_skip)
qed

lemma kmc2_iter_eq:
  assumes "draws_ok (length X) g" and "X \<noteq> []" and "0 < i" and "1 \<le> m"
  shows "kmc2_iter X m i cs g =
     Inr (cs[i := X ! spec_chain X cs i (nat m) g], skip (nat m) (nat m - 1) g)"
proof -
  let ?g1 = "g\<lparr>ints := stl (ints g)\<rparr>"
  have g1: "?g1 = skip 1 0 g" by (simp add: skip_def)
  have ok: "draws_ok (length X) ?g1"
    using assms(1) by (rule draws_ok_ints)
  have nn: "0 \<le> min_d2 cs i (X ! shd (ints g))"
    using assms(3) by (rule min_d2_nonneg)
  have len: "length [1..<nat m] = nat m - 1" by simp
  have m: "Suc (nat m - 1) = nat m" using assms(4) by simp
  have sd: "sdrop (nat m - Suc 0) (stl (ints g)) = sdrop (nat m) (ints g)"
    using sdrop.simps(2) [of "nat m - 1" "ints g"] m by simp
  show ?thesis
    using kmc2_inner_eq [OF assms(2,3) ok nn, of cs "[1..<nat m]" "shd (ints g)"]
    by (simp add: kmc2_iter_def choice_ok assms closest_min_d2 spec_chain_def g1 skip_skip m
        del: upt_Suc) (simp add: skip_def sd)
qed

lemma kmc2_loop_eq:
  assumes "X \<noteq> []" and "1 \<le> m"
  shows "draws_ok (length X) g \<Longrightarrow> 0 < i \<Longrightarrow>
     kmc2_loop X m [i..<i + r] cs g = Inr (spec_kmc2_chains X (nat m) i r cs g)"
proof (induction r arbitrary: i cs g)
  case 0
  then show ?case by simp
next
  case (Suc r)
  have l: "[i..<i + Suc r] = i # [Suc i..<Suc i + r]"
    by (simp add: upt_conv_Cons)
  have ok: "draws_ok (length X) (skip (nat m) (nat m - 1) g)"
    using Suc.prems(1) by (rule draws_ok_skip)
  show ?case
    using Suc.IH [OF ok, of "Suc i"]
    by (simp only: l kmc2_loop.simps kmc2_iter_eq [OF Suc.prems(1) assms(1) Suc.prems(2) assms(2)]
        andthen_simps spec_kmc2_chains.simps prod.case)
qed

lemma kmc2_eq:
  assumes "draws_ok (length X) g" and "X \<noteq> []" and "1 \<le> k" and "1 \<le> m"
  shows "kmc2 X k m g =
     Inr (spec_kmc2_chains X (nat m) 1 (nat k - 1)
            ((np_zeros (nat k) (shape1 X))[0 := X ! shd (ints g)]) (skip 1 0 g))"
proof -
  have g1: "g\<lparr>ints := stl (ints g)\<rparr> = skip 1 0 g" by (simp add: skip_def)
  have ok: "draws_ok (length X) (skip 1 0 g)"
    using assms(1) by (rule draws_ok_skip)
  have l: "[1..<nat k] = [1..<1 + (nat k - 1)]" using assms(3) by simp
  have "kmc2_loop X m [1..<1 + (nat k - 1)] ((np_zeros (nat k) (shape1 X))[0 := X ! shd (ints g)])
          (skip 1 0 g)
        = Inr (spec_kmc2_chains X (nat m) 1 (nat k - 1)
            ((np_zeros (nat k) (shape1 X))[0 := X ! shd (ints g)]) (skip 1 0 g))"
    by (rule kmc2_loop_eq [OF assms(2,4) ok]) simp
  moreover have "first_center X k g =
      Inr ((np_zeros (nat k) (shape1 X))[0 := X ! shd (ints g)], skip 1 0 g)"
    using assms by (simp add: first_center_ok g1)
  ultimately show ?thesis
    by (simp only: kmc2_def andthen_simps prod.case l)
qed

lemma centers_from_iff: "centers_from X i cs \<longleftrightarrow> (\<forall>j<i. cs ! j \<in> set X)"
  by (auto simp: centers_from_def list_all_iff)

lemma centers_from_update:
  "centers_from X i cs \<Longrightarrow> x < length X \<Longrightarrow> i < length cs \<Longrightarrow>
   centers_from X (Suc i) (cs[i := X ! x])"
  by (auto simp: centers_from_iff less_Suc_eq)

lemma centers_from_all:
  "centers_from X (length cs) cs \<Longrightarrow> c \<in> set cs \<Longrightarrow> c \<in> set X"
  by (auto simp: centers_from_iff in_set_conv_nth)

lemma centers_from_first:
  "0 < k \<Longrightarrow> x < length X \<Longrightarrow> centers_from X 1 ((np_zeros k d)[0 := X ! x])"
  by (simp add: centers_from_iff np_zeros_def)

lemma np_where_empty: "np_where bs = [] \<longleftrightarrow> (\<forall>j<length bs. \<not> bs ! j)"
  by (auto simp: np_where_def filter_empty_conv)

lemma set_stake_in: "x \<in> set (stake n s) \<Longrightarrow> x \<in> sset s"
  by (induction n arbitrary: s) (auto dest: stl_sset simp: shd_sset)

lemma foldl_spec_move_lt:
  "fst s < n \<Longrightarrow> \<forall>p \<in> set ps. fst p < n \<Longrightarrow> fst (foldl (spec_move X cs i) s ps) < n"
proof (induction ps arbitrary: s)
  case Nil
  then show ?case by simp
next
  case (Cons p ps)
  have "fst (spec_move X cs i s p) < n"
    using Cons.prems by (cases s; cases p) (simp add: spec_move_def)
  then show ?case
    using Cons by simp
qed

lemma spec_chain_lt:
  assumes "draws_ok (length X) g"
  shows "spec_chain X cs i m g < length X"
proof -
  have "fst p < length X"
    if "p \<in> set (zip (stake (m - 1) (stl (ints g))) (stake (m - 1) (unifs g)))" for p
  proof -
    have "fst p \<in> set (stake (m - 1) (stl (ints g)))"
      using that set_zip_leftD [of "fst p" "snd p"] by simp
    then have "fst p \<in> sset (ints g)"
      by (auto dest: set_stake_in stl_sset)
    then show ?thesis using assms by (simp add: draws_ok_def)
  qed
  then show ?thesis
    unfolding spec_chain_def
    by (intro foldl_spec_move_lt) (simp_all add: draws_ok_shd [OF assms])
qed

lemma spec_kmc2_chains_ok:
  "draws_ok (length X) g \<Longrightarrow> centers_from X i cs \<Longrightarrow> i + r \<le> length cs \<Longrightarrow>
   length (fst (spec_kmc2_chains X m i r cs g)) = length cs \<and>
   centers_from X (i + r) (fst (spec_kmc2_chains X m i r cs g))"
proof (induction r arbitrary: i cs g)
  case 0
  then show ?case by simp
next
  case (Suc r)
  let ?cs = "cs[i := X ! spec_chain X cs i m g]"
  have ok: "draws_ok (length X) (skip m (m - 1) g)"
    using Suc.prems(1) by (rule draws_ok_skip)
  have cf: "centers_from X (Suc i) ?cs"
    using Suc.prems(2) spec_chain_lt [OF Suc.prems(1)] Suc.prems(3)
    by (intro centers_from_update) simp_all
  have le: "Suc i + r \<le> length ?cs" using Suc.prems(3) by simp
  show ?case
    using Suc.IH [OF ok cf le] by simp
qed

lemma kmc2_ok:
  assumes "draws_ok (length X) g" and "X \<noteq> []" and "1 \<le> k" and "1 \<le> m"
  shows "\<exists>cs g'. kmc2 X k m g = Inr (cs, g') \<and> length cs = nat k \<and> (\<forall>c \<in> set cs. c \<in> set X)"
proof -
  let ?cs0 = "(np_zeros (nat k) (shape1 X))[0 := X ! shd (ints g)]"
  let ?r = "spec_kmc2_chains X (nat m) 1 (nat k - 1) ?cs0 (skip 1 0 g)"
  have c: "shd (ints g) < length X" using assms(1) by (rule draws_ok_shd)
  have ok: "draws_ok (length X) (skip 1 0 g)"
    using assms(1) by (rule draws_ok_skip)
  have len0: "length ?cs0 = nat k" by (simp add: np_zeros_def)
  have cf0: "centers_from X 1 ?cs0"
    using assms(3) c by (intro centers_from_first) simp_all
  have le: "1 + (nat k - 1) \<le> length ?cs0" using assms(3) len0 by simp
  from spec_kmc2_chains_ok [OF ok cf0 le]
  have len: "length (fst ?r) = nat k" and cf: "centers_from X (1 + (nat k - 1)) (fst ?r)"
    using len0 by simp_all
  have "centers_from X (length (fst ?r)) (fst ?r)"
    using cf len assms(3) by simp
  then have "\<forall>c \<in> set (fst ?r). c \<in> set X"
    using centers_from_all by blast
  moreover have "kmc2 X k m g = Inr (fst ?r, snd ?r)"
    using kmc2_eq [OF assms] by simp
  ultimately show ?thesis using len by blast
qed

lemma cumsum_from_NaN: "cumsum_from NaN xs = replicate (length xs) NaN"
  by (induction xs) simp_all

lemma cumsum_NaN: "cumsum (replicate n NaN) = replicate n NaN"
  by (cases n) (simp_all add: cumsum_from_NaN)

lemma kmpp_select_degenerate:
  assumes "0 < i" and "\<forall>x \<in> set X. min_d2 cs i x = 0"
  shows "kmpp_select X cs i g = Inl IndexError"
proof -
  have D2: "mapE (closest cs i) X = Inr (map (min_d2 cs i) X)"
    using assms(1) by (intro mapE_Inr closest_min_d2)
  have z: "map (min_d2 cs i) X = replicate (length X) 0"
    using assms(2) by (simp add: map_replicate_const [symmetric] cong: map_cong)
  have "np_where (map (\<lambda>c. np_ge c (Fin (shd (unifs g)))) (replicate (length X) NaN)) = []"
    by (simp add: np_where_empty)
  then show ?thesis
    by (simp add: kmpp_select_def D2 z Let_def uniform_def cumsum_NaN sum_list_replicate)
qed

lemma kmc2_iter_chain:
  "kmc2_iter X m i cs g = andthen (kmc2_chain X m i cs g) (\<lambda>(x, g'). Inr (cs[i := X ! x], g'))"
  by (simp add: kmc2_iter_def kmc2_chain_def andthen_def split: sum.splits prod.splits)

lemma afkmc2_iter_chain:
  "afkmc2_iter X m q i cs g =
     andthen (afkmc2_chain X m q i cs g) (\<lambda>(x, g'). Inr (cs[i := X ! x], g'))"
  by (simp add: afkmc2_iter_def afkmc2_chain_def andthen_def split: sum.splits prod.splits)

lemma afkmc2_mem_iter_chain:
  "afkmc2_mem_iter X m q i (cs, st, g) =
     andthen (afkmc2_mem_chain X m q i cs st g) (\<lambda>(x, st', g'). Inr (cs[i := X ! x], st', g'))"
  by (simp add: afkmc2_mem_iter_def afkmc2_mem_chain_def andthen_def split: sum.splits prod.splits)

lemma store_row_app:
  "a < length h0 \<Longrightarrow> store_row (h0 @ [cs]) (length h0) i ((h0 @ [cs]) ! a ! x) = h0 @ [cs[i := h0 ! a ! x]]"
  by (simp add: store_row_def nth_append)

lemma kmpp_loop_st_eq:
  "aX < length h0 \<Longrightarrow>
   kmpp_loop_st aX (length h0) is (h0 @ [cs]) g =
     andthen (kmpp_loop (h0 ! aX) is cs g) (\<lambda>(cs', g'). Inr (h0 @ [cs'], g'))"
proof (induction "is" arbitrary: cs g)
  case Nil
  then show ?case by simp
next
  case (Cons i "is")
  show ?case
  proof (cases "kmpp_select (h0 ! aX) cs i g")
    case (Inl e)
    then show ?thesis using Cons.prems by (simp add: nth_append)
  next
    case (Inr r)
    obtain ind g1 where r: "r = (ind, g1)" by (cases r)
    show ?thesis
      using Cons.prems Cons.IH [OF Cons.prems, of "cs[i := h0 ! aX ! ind]" g1]
        store_row_app [OF Cons.prems, of cs i ind]
      by (simp add: nth_append Inr r)
  qed
qed

lemma kmc2_loop_st_eq:
  "aX < length h0 \<Longrightarrow>
   kmc2_loop_st aX (length h0) m is (h0 @ [cs]) g =
     andthen (kmc2_loop (h0 ! aX) m is cs g) (\<lambda>(cs', g'). Inr (h0 @ [cs'], g'))"
proof (induction "is" arbitrary: cs g)
  case Nil
  then show ?case by simp
next
  case (Cons i "is")
  show ?case
  proof (cases "kmc2_chain (h0 ! aX) m i cs g")
    case (Inl e)
    then show ?thesis using Cons.prems by (simp add: nth_append kmc2_iter_chain)
  next
    case (Inr r)
    obtain x g1 where r: "r = (x, g1)" by (cases r)
    show ?thesis
      using Cons.prems Cons.IH [OF Cons.prems, of "cs[i := h0 ! aX ! x]" g1]
        store_row_app [OF Cons.prems, of cs i x]
      by (simp add: nth_append kmc2_iter_chain Inr r)
  qed
qed

lemma afkmc2_loop_st_eq:
  "aX < length h0 \<Longrightarrow>
   afkmc2_loop_st aX (length h0) m q is (h0 @ [cs]) g =
     andthen (afkmc2_loop (h0 ! aX) m q is cs g) (\<lambda>(cs', g'). Inr (h0 @ [cs'], g'))"
proof (induction "is" arbitrary: cs g)
  case Nil
  then show ?case by simp
next
  case (Cons i "is")
  show ?case
  proof (cases "afkmc2_chain (h0 ! aX) m q i cs g")
    case (Inl e)
    then show ?thesis using Cons.prems by (simp add: nth_append afkmc2_iter_chain)
  next
    case (Inr r)
    obtain x g1 where r: "r = (x, g1)" by (cases r)
    show ?thesis
      using Cons.prems Cons.IH [OF Cons.prems, of "cs[i := h0 ! aX ! x]" g1]
        store_row_app [OF Cons.prems, of cs i x]
      by (simp add: nth_append afkmc2_iter_chain Inr r)
  qed
qed

lemma afkmc2_mem_loop_st_eq:
  "aX < length h0 \<Longrightarrow>
   afkmc2_mem_loop_st aX (length h0) m q is (h0 @ [cs]) st g =
     andthen (afkmc2_mem_loop (h0 ! aX) m q is (cs, st, g))
       (\<lambda>(cs', st', g'). Inr (h0 @ [cs'], st', g'))"
proof (induction "is" arbitrary: cs st g)
  case Nil
  then show ?case by simp
next
  case (Cons i "is")
  show ?case
  proof (cases "afkmc2_mem_chain (h0 ! aX) m q i cs st g")
    case (Inl e)
    then show ?thesis using Cons.prems by (simp add: nth_append afkmc2_mem_iter_chain)
  next
    case (Inr r)
    obtain x st1 g1 where r: "r = (x, st1, g1)" by (cases r)
    show ?thesis
      using Cons.prems Cons.IH [OF Cons.prems, of "cs[i := h0 ! aX ! x]" st1 g1]
        store_row_app [OF Cons.prems, of cs i x]
      by (simp add: nth_append afkmc2_mem_iter_chain Inr r)
  qed
qed

lemma first_center_st_eq:
  "aX < length h \<Longrightarrow>
   first_center_st h aX k g =
     andthen (first_center (h ! aX) k g) (\<lambda>(cs, g'). Inr (length h, h @ [cs], g'))"
  by (simp add: first_center_st_def first_center_def alloc_def store_row_def nth_append
      andthen_def split: sum.splits)

lemma kmpp_st_eq:
  assumes "aX < length h"
  shows "kmpp_st h aX k g = returns_new h (kmpp (h ! aX) k g)"
proof (cases "first_center (h ! aX) k g")
  case (Inl e)
  then show ?thesis
    using assms by (simp add: kmpp_st_def kmpp_def first_center_st_eq returns_new_def)
next
  case (Inr r)
  obtain cs g1 where r: "r = (cs, g1)" by (cases r)
  have fc: "first_center_st h aX k g = Inr (length h, h @ [cs], g1)"
    using assms by (simp add: first_center_st_eq Inr r)
  show ?thesis
  proof (cases "kmpp_loop (h ! aX) [1..<nat k] cs g1")
    case (Inl e)
    then show ?thesis
      using assms by (simp add: kmpp_st_def kmpp_def fc Inr r kmpp_loop_st_eq returns_new_def nth_append)
  next
    case lp: (Inr r2)
    then show ?thesis
      using assms
      by (cases r2) (simp add: kmpp_st_def kmpp_def fc Inr r kmpp_loop_st_eq returns_new_def nth_append)
  qed
qed

lemma kmc2_st_eq:
  assumes "aX < length h"
  shows "kmc2_st h aX k m g = returns_new h (kmc2 (h ! aX) k m g)"
proof (cases "first_center (h ! aX) k g")
  case (Inl e)
  then show ?thesis
    using assms by (simp add: kmc2_st_def kmc2_def first_center_st_eq returns_new_def)
next
  case (Inr r)
  obtain cs g1 where r: "r = (cs, g1)" by (cases r)
  have fc: "first_center_st h aX k g = Inr (length h, h @ [cs], g1)"
    using assms by (simp add: first_center_st_eq Inr r)
  show ?thesis
  proof (cases "kmc2_loop (h ! aX) m [1..<nat k] cs g1")
    case (Inl e)
    then show ?thesis
      using assms by (simp add: kmc2_st_def kmc2_def fc Inr r kmc2_loop_st_eq returns_new_def nth_append)
  next
    case lp: (Inr r2)
    then show ?thesis
      using assms
      by (cases r2) (simp add: kmc2_st_def kmc2_def fc Inr r kmc2_loop_st_eq returns_new_def nth_append)
  qed
qed

lemma afkmc2_st_eq:
  assumes "aX < length h"
  shows "afkmc2_st h aX k m g = returns_new h (afkmc2 (h ! aX) k m g)"
proof (cases "first_center (h ! aX) k g")
  case (Inl e)
  then show ?thesis
    using assms by (simp add: afkmc2_st_def afkmc2_def first_center_st_eq returns_new_def)
next
  case (Inr r)
  obtain cs g1 where r: "r = (cs, g1)" by (cases r)
  have fc: "first_center_st h aX k g = Inr (length h, h @ [cs], g1)"
    using assms by (simp add: first_center_st_eq Inr r)
  show ?thesis
  proof (cases "afkmc2_loop (h ! aX) m (afkmc2_q (h ! aX) (cs ! 0)) [1..<nat k] cs g1")
    case (Inl e)
    then show ?thesis
      using assms by (simp add: afkmc2_st_def afkmc2_def fc Inr r afkmc2_loop_st_eq returns_new_def nth_append)
  next
    case lp: (Inr r2)
    then show ?thesis
      using assms
      by (cases r2) (simp add: afkmc2_st_def afkmc2_def fc Inr r afkmc2_loop_st_eq returns_new_def nth_append)
  qed
qed

lemma afkmc2_mem_st_eq:
  assumes "aX < length h"
  shows "afkmc2_mem_st junk h aX k m g = returns_new h (afkmc2_mem junk (h ! aX) k m g)"
proof (cases "first_center (h ! aX) k g")
  case (Inl e)
  then show ?thesis
    using assms by (simp add: afkmc2_mem_st_def afkmc2_mem_def first_center_st_eq returns_new_def)
next
  case (Inr r)
  obtain cs g1 where r: "r = (cs, g1)" by (cases r)
  have fc: "first_center_st h aX k g = Inr (length h, h @ [cs], g1)"
    using assms by (simp add: first_center_st_eq Inr r)
  obtain q st where q: "afkmc2_mem_q (h ! aX) cs junk = (q, st)"
    by (cases "afkmc2_mem_q (h ! aX) cs junk")
  show ?thesis
  proof (cases "afkmc2_mem_loop (h ! aX) m q [1..<nat k] (cs, st, g1)")
    case (Inl e)
    then show ?thesis
      using assms
      by (simp add: afkmc2_mem_st_def afkmc2_mem_def fc Inr r q afkmc2_mem_loop_st_eq
          returns_new_def nth_append)
  next
    case lp: (Inr r2)
    obtain cs' st' g' where r2: "r2 = (cs', st', g')" by (cases r2)
    show ?thesis
      using assms lp
      by (simp add: afkmc2_mem_st_def afkmc2_mem_def fc Inr r q r2 afkmc2_mem_loop_st_eq
          returns_new_def nth_append)
  qed
qed

lemma returns_new_frame:
  assumes "aX < length h" and "returns_new h r = Inr (ac, h', g')"
  shows "take (length h) h' = h \<and> h' ! aX = h ! aX \<and> ac \<noteq> aX \<and>
         (\<forall>v. (h'[aX := v]) ! ac = h' ! ac) \<and> r = Inr (h' ! ac, g')"
  using assms by (auto simp: returns_new_def nth_append split: sum.splits)

subsection \<open>The procedures over float64\<close>

lemma real_arith_simps:
  "fl_dist2 real_arith a c = Fin (dist2 a c)"
  "fl_add real_arith = np_add"
  "fl_mul real_arith = np_mul"
  "fl_div real_arith = np_div"
  "fl_sum real_arith = np_sum"
  "fl_accepts real_arith = valid_p"
  by (simp_all add: real_arith_def)

lemma draws_ok_fl_skip: "draws_ok_fl n g \<Longrightarrow> draws_ok_fl n (skip_fl a b c g)"
  by (auto simp: draws_ok_fl_def skip_fl_def dest: sset_sdrop_in)

lemma draws_ok_fl_index: "draws_ok_fl n g \<Longrightarrow> shd (index_draws g) < n"
  by (simp add: draws_ok_fl_def shd_sset)

lemma draws_ok_fl_weighted: "draws_ok_fl n g \<Longrightarrow> shd (weighted_draws g) p < n"
  by (simp add: draws_ok_fl_def shd_sset)

lemma skip_fl_skip_fl: "skip_fl a b c (skip_fl a' b' c' g) = skip_fl (a' + a) (b' + b) (c' + c) g"
  by (simp add: skip_fl_def)

lemma choice_fl_ok:
  "draws_ok_fl n g \<Longrightarrow> 0 < n \<Longrightarrow> choice_fl n g = Inr (shd (index_draws g), skip_fl 1 0 0 g)"
  by (simp add: choice_fl_def draws_ok_fl_index skip_fl_def)

lemma choice_p_fl_ok:
  "draws_ok_fl n g \<Longrightarrow> 0 < n \<Longrightarrow> length p = n \<Longrightarrow> fl_accepts ar p \<Longrightarrow>
   choice_p_fl ar n p g = Inr (shd (weighted_draws g) p, skip_fl 0 1 0 g)"
  by (simp add: choice_p_fl_def draws_ok_fl_weighted skip_fl_def)

lemma uniform_fl_eq: "uniform_fl g = (shd (unit_draws g), skip_fl 0 0 1 g)"
  by (simp add: uniform_fl_def skip_fl_def)

lemma fold_map_min:
  "fold (\<lambda>v best. if np_gt best v then v else best) (map f js) b
   = fold (\<lambda>j best. if np_gt best (f j) then f j else best) js b"
  by (induction js arbitrary: b) simp_all

lemma closest_fl_min_dist: "0 < i \<Longrightarrow> closest_fl ar centers i p = Inr (min_dist ar centers i p)"
proof -
  assume "0 < i"
  then have "[0..<i] = 0 # [1..<i]" by (simp add: upt_conv_Cons)
  then show ?thesis
    by (simp add: closest_fl_def min_dist_def fold_map_min del: upt_Suc)
qed

lemma kmc2_step_fl_eq:
  assumes "draws_ok_fl (length X) g" and "X \<noteq> []" and "0 < i"
  shows "kmc2_step_fl ar X cs i (x, dx2, g) =
     Inr (if np_gt (fl_div ar (min_dist ar cs i (X ! shd (index_draws g))) dx2) (Fin (shd (unit_draws g)))
          then (shd (index_draws g), min_dist ar cs i (X ! shd (index_draws g)), skip_fl 1 0 1 g)
          else (x, dx2, skip_fl 1 0 1 g))"
  using assms
  by (simp add: kmc2_step_fl_def choice_fl_ok closest_fl_min_dist uniform_fl_eq skip_fl_skip_fl)
    (simp add: skip_fl_def)

lemma kmc2_inner_fl_eq:
  assumes "X \<noteq> []" and "0 < i"
  shows "draws_ok_fl (length X) g \<Longrightarrow>
     kmc2_inner_fl ar X cs i js (x, dx2, g) =
       (case foldl (\<lambda>s p. case s of (x, dx2) \<Rightarrow> case p of (y, u) \<Rightarrow>
                    if np_gt (fl_div ar (min_dist ar cs i (X ! y)) dx2) (Fin u)
                    then (y, min_dist ar cs i (X ! y)) else (x, dx2))
               (x, dx2) (zip (stake (length js) (index_draws g)) (stake (length js) (unit_draws g)))
        of (x', dx2') \<Rightarrow> Inr (x', dx2', skip_fl (length js) 0 (length js) g))"
proof (induction js arbitrary: x dx2 g)
  case Nil
  then show ?case by (simp add: skip_fl_def)
next
  case (Cons j js)
  have ok: "draws_ok_fl (length X) (skip_fl 1 0 1 g)"
    using Cons.prems by (rule draws_ok_fl_skip)
  have tl: "index_draws (skip_fl (Suc 0) 0 (Suc 0) g) = stl (index_draws g)"
    "unit_draws (skip_fl (Suc 0) 0 (Suc 0) g) = stl (unit_draws g)"
    by (simp_all add: skip_fl_def)
  show ?case
  proof (cases "np_gt (fl_div ar (min_dist ar cs i (X ! shd (index_draws g))) dx2)
                  (Fin (shd (unit_draws g)))")
    case True
    then show ?thesis
      using Cons.IH [OF ok, of "shd (index_draws g)" "min_dist ar cs i (X ! shd (index_draws g))"]
      by (simp add: kmc2_step_fl_eq [OF Cons.prems assms] tl skip_fl_skip_fl)
  next
    case False
    then show ?thesis
      using Cons.IH [OF ok, of x dx2]
      by (simp add: kmc2_step_fl_eq [OF Cons.prems assms] tl skip_fl_skip_fl)
  qed
qed

lemma kmc2_iter_fl_eq:
  assumes "draws_ok_fl (length X) g" and "X \<noteq> []" and "0 < i" and "1 \<le> m"
  shows "kmc2_iter_fl ar X m i cs g =
     Inr (cs[i := X ! spec_kmc2_slot ar X (nat m) i cs g], skip_fl (nat m) 0 (nat m - 1) g)"
proof -
  have ok: "draws_ok_fl (length X) (skip_fl 1 0 0 g)"
    using assms(1) by (rule draws_ok_fl_skip)
  have n: "0 < length X" using assms(2) by simp
  have len: "length [1..<nat m] = nat m - 1" by simp
  have m: "Suc (nat m - 1) = nat m" using assms(4) by simp
  have tl: "index_draws (skip_fl 1 0 0 g) = stl (index_draws g)"
    "unit_draws (skip_fl 1 0 0 g) = unit_draws g"
    by (simp_all add: skip_fl_def)
  show ?thesis
    unfolding kmc2_iter_fl_def choice_fl_ok [OF assms(1) n] andthen_simps prod.case
      closest_fl_min_dist [OF assms(3)] kmc2_inner_fl_eq [OF assms(2,3) ok] len tl
      spec_kmc2_slot_def walk_def skip_fl_skip_fl
    using m by (simp add: split_beta)
qed

lemma kmc2_loop_fl_eq:
  assumes "X \<noteq> []" and "1 \<le> m"
  shows "draws_ok_fl (length X) g \<Longrightarrow> 0 < i \<Longrightarrow>
     kmc2_loop_fl ar X m [i..<i + r] cs g =
       Inr (fill (spec_kmc2_slot ar X (nat m)) (skip_fl (nat m) 0 (nat m - 1)) X i r cs g)"
proof (induction r arbitrary: i cs g)
  case 0
  then show ?case by simp
next
  case (Suc r)
  have l: "[i..<i + Suc r] = i # [Suc i..<Suc i + r]"
    by (simp add: upt_conv_Cons)
  have ok: "draws_ok_fl (length X) (skip_fl (nat m) 0 (nat m - 1) g)"
    using Suc.prems(1) by (rule draws_ok_fl_skip)
  show ?case
    using Suc.IH [OF ok, of "Suc i"]
    by (simp only: l kmc2_loop_fl.simps kmc2_iter_fl_eq [OF Suc.prems(1) assms(1) Suc.prems(2) assms(2)]
        andthen_simps fill.simps prod.case)
qed

lemma first_center_fl_ok:
  "draws_ok_fl (length X) g \<Longrightarrow> X \<noteq> [] \<Longrightarrow> 0 < k \<Longrightarrow>
   first_center_fl X k g =
     Inr ((np_zeros (nat k) (shape1 X))[0 := X ! shd (index_draws g)], skip_fl 1 0 0 g)"
  by (simp add: first_center_fl_def choice_fl_ok)

lemma kmc2_fl_eq:
  assumes "draws_ok_fl (length X) g" and "X \<noteq> []" and "1 \<le> k" and "1 \<le> m"
  shows "kmc2_fl ar X k m g = Inr (spec_kmc2 ar X (nat k) (nat m) g)"
proof -
  have ok: "draws_ok_fl (length X) (skip_fl 1 0 0 g)"
    using assms(1) by (rule draws_ok_fl_skip)
  have l: "[1..<nat k] = [1..<1 + (nat k - 1)]" using assms(3) by simp
  have "kmc2_loop_fl ar X m [1..<1 + (nat k - 1)]
          ((np_zeros (nat k) (shape1 X))[0 := X ! shd (index_draws g)]) (skip_fl 1 0 0 g)
        = Inr (spec_kmc2 ar X (nat k) (nat m) g)"
    unfolding spec_kmc2_def by (rule kmc2_loop_fl_eq [OF assms(2,4) ok]) simp
  moreover have "first_center_fl X k g =
      Inr ((np_zeros (nat k) (shape1 X))[0 := X ! shd (index_draws g)], skip_fl 1 0 0 g)"
    using assms by (simp add: first_center_fl_ok)
  ultimately show ?thesis
    by (simp only: kmc2_fl_def andthen_simps prod.case l)
qed

lemma afkmc2_step_fl_eq:
  assumes "draws_ok_fl (length X) g" and "X \<noteq> []" and "0 < i"
    and "length q = length X" and "fl_accepts ar q"
  shows "afkmc2_step_fl ar X q cs i (x, dx2, g) =
     Inr (if np_gt (fl_div ar (fl_mul ar (min_dist ar cs i (X ! shd (weighted_draws g) q)) (q ! x))
                     (fl_mul ar dx2 (q ! shd (weighted_draws g) q))) (Fin (shd (unit_draws g)))
          then (shd (weighted_draws g) q, min_dist ar cs i (X ! shd (weighted_draws g) q),
                skip_fl 0 1 1 g)
          else (x, dx2, skip_fl 0 1 1 g))"
proof -
  have n: "0 < length X" using assms(2) by simp
  show ?thesis
    using assms(3)
    by (simp add: afkmc2_step_fl_def choice_p_fl_ok [OF assms(1) n assms(4,5)] closest_fl_min_dist
        uniform_fl_eq skip_fl_skip_fl) (simp add: skip_fl_def)
qed

lemma afkmc2_inner_fl_eq:
  assumes "X \<noteq> []" and "0 < i" and "length q = length X" and "fl_accepts ar q"
  shows "draws_ok_fl (length X) g \<Longrightarrow>
     afkmc2_inner_fl ar X q cs i js (x, dx2, g) =
       (case foldl (\<lambda>s p. case s of (x, dx2) \<Rightarrow> case p of (y, u) \<Rightarrow>
                    if np_gt (fl_div ar (fl_mul ar (min_dist ar cs i (X ! y)) (q ! x))
                               (fl_mul ar dx2 (q ! y))) (Fin u)
                    then (y, min_dist ar cs i (X ! y)) else (x, dx2))
               (x, dx2)
               (zip (map (\<lambda>f. f q) (stake (length js) (weighted_draws g)))
                    (stake (length js) (unit_draws g)))
        of (x', dx2') \<Rightarrow> Inr (x', dx2', skip_fl 0 (length js) (length js) g))"
proof (induction js arbitrary: x dx2 g)
  case Nil
  then show ?case by (simp add: skip_fl_def)
next
  case (Cons j js)
  have ok: "draws_ok_fl (length X) (skip_fl 0 1 1 g)"
    using Cons.prems by (rule draws_ok_fl_skip)
  have tl: "weighted_draws (skip_fl 0 (Suc 0) (Suc 0) g) = stl (weighted_draws g)"
    "unit_draws (skip_fl 0 (Suc 0) (Suc 0) g) = stl (unit_draws g)"
    by (simp_all add: skip_fl_def)
  let ?y = "shd (weighted_draws g) q"
  show ?case
  proof (cases "np_gt (fl_div ar (fl_mul ar (min_dist ar cs i (X ! ?y)) (q ! x))
                     (fl_mul ar dx2 (q ! ?y))) (Fin (shd (unit_draws g)))")
    case True
    then show ?thesis
      using Cons.IH [OF ok, of ?y "min_dist ar cs i (X ! ?y)"]
      by (simp add: afkmc2_step_fl_eq [OF Cons.prems assms] tl skip_fl_skip_fl)
  next
    case False
    then show ?thesis
      using Cons.IH [OF ok, of x dx2]
      by (simp add: afkmc2_step_fl_eq [OF Cons.prems assms] tl skip_fl_skip_fl)
  qed
qed

lemma afkmc2_iter_fl_eq:
  assumes "draws_ok_fl (length X) g" and "X \<noteq> []" and "0 < i" and "1 \<le> m"
    and "length q = length X" and "fl_accepts ar q"
  shows "afkmc2_iter_fl ar X m q i cs g =
     Inr (cs[i := X ! spec_afkmc2_slot ar X q (nat m) i cs g], skip_fl 0 (nat m) (nat m - 1) g)"
proof -
  have ok: "draws_ok_fl (length X) (skip_fl 0 1 0 g)"
    using assms(1) by (rule draws_ok_fl_skip)
  have n: "0 < length X" using assms(2) by simp
  have len: "length [1..<nat m] = nat m - 1" by simp
  have m: "Suc (nat m - 1) = nat m" using assms(4) by simp
  have tl: "weighted_draws (skip_fl 0 1 0 g) = stl (weighted_draws g)"
    "unit_draws (skip_fl 0 1 0 g) = unit_draws g"
    by (simp_all add: skip_fl_def)
  show ?thesis
    unfolding afkmc2_iter_fl_def choice_p_fl_ok [OF assms(1) n assms(5,6)] andthen_simps prod.case
      closest_fl_min_dist [OF assms(3)] afkmc2_inner_fl_eq [OF assms(2,3,5,6) ok] len tl
      spec_afkmc2_slot_def walk_def skip_fl_skip_fl
    using m by (simp add: split_beta)
qed

lemma afkmc2_loop_fl_eq:
  assumes "X \<noteq> []" and "1 \<le> m" and "length q = length X" and "fl_accepts ar q"
  shows "draws_ok_fl (length X) g \<Longrightarrow> 0 < i \<Longrightarrow>
     afkmc2_loop_fl ar X m q [i..<i + r] cs g =
       Inr (fill (spec_afkmc2_slot ar X q (nat m)) (skip_fl 0 (nat m) (nat m - 1)) X i r cs g)"
proof (induction r arbitrary: i cs g)
  case 0
  then show ?case by simp
next
  case (Suc r)
  have l: "[i..<i + Suc r] = i # [Suc i..<Suc i + r]"
    by (simp add: upt_conv_Cons)
  have ok: "draws_ok_fl (length X) (skip_fl 0 (nat m) (nat m - 1) g)"
    using Suc.prems(1) by (rule draws_ok_fl_skip)
  show ?case
    using Suc.IH [OF ok, of "Suc i"]
    by (simp only: l afkmc2_loop_fl.simps
        afkmc2_iter_fl_eq [OF Suc.prems(1) assms(1) Suc.prems(2) assms(2,3,4)]
        andthen_simps fill.simps prod.case)
qed

lemma length_afkmc2_q_fl: "length (afkmc2_q_fl ar X c0) = length X"
  by (simp add: afkmc2_q_fl_def proposal_fl_def)

lemma afkmc2_fl_eq:
  assumes "draws_ok_fl (length X) g" and "X \<noteq> []" and "1 \<le> k" and "1 \<le> m"
    and "fl_accepts ar (afkmc2_q_fl ar X (X ! shd (index_draws g)))"
  shows "afkmc2_fl ar X k m g = Inr (spec_afkmc2 ar X (nat k) (nat m) g)"
proof -
  let ?cs0 = "(np_zeros (nat k) (shape1 X))[0 := X ! shd (index_draws g)]"
  let ?q = "afkmc2_q_fl ar X (X ! shd (index_draws g))"
  have ok: "draws_ok_fl (length X) (skip_fl 1 0 0 g)"
    using assms(1) by (rule draws_ok_fl_skip)
  have l: "[1..<nat k] = [1..<1 + (nat k - 1)]" using assms(3) by simp
  have c0: "?cs0 ! 0 = X ! shd (index_draws g)" using assms(3) by (simp add: np_zeros_def)
  have "afkmc2_loop_fl ar X m ?q [1..<1 + (nat k - 1)] ?cs0 (skip_fl 1 0 0 g)
        = Inr (spec_afkmc2 ar X (nat k) (nat m) g)"
    unfolding spec_afkmc2_def
    by (rule afkmc2_loop_fl_eq [OF assms(2,4) length_afkmc2_q_fl assms(5) ok]) simp
  moreover have "first_center_fl X k g = Inr (?cs0, skip_fl 1 0 0 g)"
    using assms by (simp add: first_center_fl_ok)
  ultimately show ?thesis
    by (simp only: afkmc2_fl_def andthen_simps prod.case l c0)
qed

lemma np_ge_one_gt: "np_ge ratio (Fin 1) \<Longrightarrow> u < 1 \<Longrightarrow> np_gt ratio (Fin u)"
  by (cases ratio) simp_all

lemma length_cumsum_from_fl: "length (cumsum_from_fl ar acc xs) = length xs"
  by (induction xs arbitrary: acc) simp_all

lemma length_cumsum_fl: "length (cumsum_fl ar xs) = length xs"
  by (cases xs) (simp_all add: length_cumsum_from_fl)

lemma cumsum_from_fl_nth:
  "j < length xs \<Longrightarrow> cumsum_from_fl ar acc xs ! j = foldl (fl_add ar) acc (take (Suc j) xs)"
proof (induction xs arbitrary: acc j)
  case Nil
  then show ?case by simp
next
  case (Cons x xs)
  then show ?case by (cases j) simp_all
qed

lemma cumsum_fl_nth:
  "j < length xs \<Longrightarrow> cumsum_fl ar xs ! j = foldl (fl_add ar) (hd xs) (take j (tl xs))"
proof (cases xs)
  case Nil
  then show "j < length xs \<Longrightarrow> ?thesis" by simp
next
  case (Cons x xs')
  assume "j < length xs"
  then show ?thesis
    using Cons by (cases j) (simp_all add: cumsum_from_fl_nth)
qed

lemma case_filter_find:
  "(case filter P xs of [] \<Rightarrow> a | x # _ \<Rightarrow> f x) = (case find P xs of None \<Rightarrow> a | Some x \<Rightarrow> f x)"
  by (induction xs) simp_all

lemma kmpp_select_fl_eq:
  assumes "0 < i"
  shows "kmpp_select_fl ar X cs i g =
     (case spec_pick ar X cs i (shd (unit_draws g)) of
        None \<Rightarrow> Inl IndexError
      | Some ind \<Rightarrow> Inr (ind, skip_fl 0 0 1 g))"
proof -
  let ?D2 = "map (min_dist ar cs i) X"
  let ?ps = "map (\<lambda>d. fl_div ar d (fl_sum ar ?D2)) ?D2"
  let ?r = "Fin (shd (unit_draws g))"
  have D2: "mapE (closest_fl ar cs i) X = Inr ?D2"
    using assms by (intro mapE_Inr closest_fl_min_dist)
  have len: "length (map (\<lambda>c. np_ge c ?r) (cumsum_fl ar ?ps)) = length X"
    by (simp add: length_cumsum_fl)
  have cum: "cumsum_fl ar ?ps ! j = spec_cumprob ar ?D2 j" if "j < length X" for j
  proof -
    have ne: "X \<noteq> []" using that by auto
    have "cumsum_fl ar ?ps ! j = foldl (fl_add ar) (hd ?ps) (take j (tl ?ps))"
      using that by (intro cumsum_fl_nth) simp
    also have "hd ?ps = fl_div ar (?D2 ! 0) (fl_sum ar ?D2)"
      using ne by (simp add: hd_map hd_conv_nth)
    also have "tl ?ps = map (\<lambda>d. fl_div ar d (fl_sum ar ?D2)) (tl ?D2)"
      by (simp add: map_tl)
    finally show ?thesis
      by (simp add: spec_cumprob_def take_map)
  qed
  have "find (\<lambda>j. map (\<lambda>c. np_ge c ?r) (cumsum_fl ar ?ps) ! j) [0..<length X]
      = spec_pick ar X cs i (shd (unit_draws g))"
    unfolding spec_pick_def
  proof (rule find_cong)
    show "[0..<length X] = [0..<length X]" ..
    fix j
    assume "j \<in> set [0..<length X]"
    then have j: "j < length X" by simp
    then have "j < length (cumsum_fl ar ?ps)" by (simp only: length_cumsum_fl length_map)
    then have "map (\<lambda>c. np_ge c ?r) (cumsum_fl ar ?ps) ! j = np_ge (cumsum_fl ar ?ps ! j) ?r"
      by (rule nth_map)
    then show "map (\<lambda>c. np_ge c ?r) (cumsum_fl ar ?ps) ! j = np_ge (spec_cumprob ar ?D2 j) ?r"
      by (simp only: cum [OF j])
  qed
  then show ?thesis
    by (simp add: kmpp_select_fl_def D2 Let_def uniform_fl_eq np_where_def length_cumsum_fl
        case_filter_find del: map_map cong: option.case_cong)
qed

lemma kmpp_loop_fl_eq:
  "0 < i \<Longrightarrow> kmpp_loop_fl ar X [i..<i + r] cs g = spec_kmpp_slots ar X i r cs g"
proof (induction r arbitrary: i cs g)
  case 0
  then show ?case by simp
next
  case (Suc r)
  have l: "[i..<i + Suc r] = i # [Suc i..<Suc i + r]"
    by (simp add: upt_conv_Cons)
  show ?case
  proof (cases "spec_pick ar X cs i (shd (unit_draws g))")
    case None
    then show ?thesis
      by (simp only: l kmpp_loop_fl.simps kmpp_select_fl_eq [OF Suc.prems] spec_kmpp_slots.simps
          option.case andthen_simps)
  next
    case (Some ind)
    then show ?thesis
      using Suc.IH [of "Suc i" "cs[i := X ! ind]" "skip_fl 0 0 1 g"]
      by (simp only: l kmpp_loop_fl.simps kmpp_select_fl_eq [OF Suc.prems] spec_kmpp_slots.simps
          option.case andthen_simps prod.case)
  qed
qed

lemma kmpp_fl_eq:
  assumes "draws_ok_fl (length X) g" and "X \<noteq> []" and "1 \<le> k"
  shows "kmpp_fl ar X k g = spec_kmpp ar X (nat k) g"
proof -
  have l: "[1..<nat k] = [1..<1 + (nat k - 1)]" using assms(3) by simp
  have fc: "first_center_fl X k g =
      Inr ((np_zeros (nat k) (shape1 X))[0 := X ! shd (index_draws g)], skip_fl 1 0 0 g)"
    using assms by (simp add: first_center_fl_ok)
  have lp: "kmpp_loop_fl ar X [1..<1 + (nat k - 1)]
        ((np_zeros (nat k) (shape1 X))[0 := X ! shd (index_draws g)]) (skip_fl 1 0 0 g)
      = spec_kmpp_slots ar X 1 (nat k - 1)
        ((np_zeros (nat k) (shape1 X))[0 := X ! shd (index_draws g)]) (skip_fl 1 0 0 g)"
    by (rule kmpp_loop_fl_eq) simp
  show ?thesis
    by (simp only: kmpp_fl_def fc andthen_simps prod.case l lp spec_kmpp_def)
qed

lemma spec_pick_Some:
  "spec_pick ar X cs i r = Some ind \<longleftrightarrow>
     ind < length X \<and> np_ge (spec_cumprob ar (map (min_dist ar cs i) X) ind) (Fin r) \<and>
     (\<forall>j<ind. \<not> np_ge (spec_cumprob ar (map (min_dist ar cs i) X) j) (Fin r))"
  unfolding spec_pick_def find_Some_iff by auto

lemma spec_pick_None:
  "spec_pick ar X cs i r = None \<longleftrightarrow>
     (\<forall>j<length X. \<not> np_ge (spec_cumprob ar (map (min_dist ar cs i) X) j) (Fin r))"
  unfolding spec_pick_def find_None_iff by auto




















lemma afkmc2_q_fl_eq:
  "afkmc2_q_fl ar X c0 =
     map (\<lambda>x. fl_add ar
                 (fl_div ar (fl_dist2 ar x c0)
                    (fl_mul ar (Fin 2) (fl_sum ar (map (\<lambda>y. fl_dist2 ar y c0) X))))
                 (fl_div ar (Fin 1) (fl_mul ar (Fin 2) (Fin (real (length X)))))) X"
  by (simp only: afkmc2_q_fl_def map_nth_upt [of "\<lambda>x. fl_dist2 ar x c0" X] proposal_fl_def
      map_map comp_def)






section \<open>The claims\<close>

subsection \<open>Configuration\<close>

text \<open>
  C2, as amended. No procedure validates its configuration. A negative k (at the allocation
  of the centers) and a dataset without rows (at the first draw) end each of the four
  procedures with \<open>ValueError\<close>; k = 0 ends each of them with \<open>IndexError\<close> at the store
  of the first center. A chain length m below 1 is accepted and behaves as m = 1.
  Nothing rejects k > n.
\<close>

theorem config_errors:
  "(k < 0 \<or> X = [] \<longrightarrow>
      kmpp X k g = Inl ValueError \<and> kmc2 X k m g = Inl ValueError \<and>
      afkmc2 X k m g = Inl ValueError \<and> afkmc2_mem junk X k m g = Inl ValueError) \<and>
   (k = 0 \<and> X \<noteq> [] \<and> shd (ints g) < length X \<longrightarrow>
      kmpp X k g = Inl IndexError \<and> kmc2 X k m g = Inl IndexError \<and>
      afkmc2 X k m g = Inl IndexError \<and> afkmc2_mem junk X k m g = Inl IndexError) \<and>
   (m < 1 \<longrightarrow>
      kmc2 X k m g = kmc2 X k 1 g \<and> afkmc2 X k m g = afkmc2 X k 1 g \<and>
      afkmc2_mem junk X k m g = afkmc2_mem junk X k 1 g)"
proof (intro conjI impI)
  assume "k < 0 \<or> X = []"
  then have fc: "first_center X k g = Inl ValueError"
    using first_center_neg first_center_empty by blast
  show "kmpp X k g = Inl ValueError" by (simp add: kmpp_def fc)
  show "kmc2 X k m g = Inl ValueError" by (simp add: kmc2_def fc)
  show "afkmc2 X k m g = Inl ValueError" by (simp add: afkmc2_def fc)
  show "afkmc2_mem junk X k m g = Inl ValueError" by (simp add: afkmc2_mem_def fc)
next
  assume "k = 0 \<and> X \<noteq> [] \<and> shd (ints g) < length X"
  then have fc: "first_center X k g = Inl IndexError"
    using first_center_zero by blast
  show "kmpp X k g = Inl IndexError" by (simp add: kmpp_def fc)
  show "kmc2 X k m g = Inl IndexError" by (simp add: kmc2_def fc)
  show "afkmc2 X k m g = Inl IndexError" by (simp add: afkmc2_def fc)
  show "afkmc2_mem junk X k m g = Inl IndexError" by (simp add: afkmc2_mem_def fc)
next
  assume m: "m < 1"
  then have eq: "[1..<nat m] = [1..<nat 1]" by simp
  show "kmc2 X k m g = kmc2 X k 1 g"
    unfolding kmc2_def using kmc2_loop_m [OF eq] by (simp cong: sum.case_cong add: andthen_def split: sum.splits)
  show "afkmc2 X k m g = afkmc2 X k 1 g"
    unfolding afkmc2_def using afkmc2_loop_m [OF eq] by (simp add: andthen_def split: sum.splits)
  show "afkmc2_mem junk X k m g = afkmc2_mem junk X k 1 g"
    unfolding afkmc2_mem_def using afkmc2_mem_loop_m [OF eq] by (simp add: andthen_def split: sum.splits prod.splits)
qed

theorem config_errors_witness:
  "((-1 :: int) < 0 \<or> [[0 :: real]] = []) \<and>
   kmpp [[0]] (-1) \<lparr>ints = sconst 0, unifs = sconst 0\<rparr> = Inl ValueError \<and>
   ((0 :: int) = 0 \<and> [[0 :: real]] \<noteq> [] \<and>
      shd (ints \<lparr>ints = sconst 0, unifs = sconst 0\<rparr>) < length [[0 :: real]]) \<and>
   afkmc2 [[0]] 0 5 \<lparr>ints = sconst 0, unifs = sconst 0\<rparr> = Inl IndexError \<and>
   (0 :: int) < 1 \<and>
   kmc2 [[0], [1]] 2 0 \<lparr>ints = sconst 0, unifs = sconst 0\<rparr> =
     kmc2 [[0], [1]] 2 1 \<lparr>ints = sconst 0, unifs = sconst 0\<rparr>"
  using config_errors [of "-1" "[[0]]" "\<lparr>ints = sconst 0, unifs = sconst 0\<rparr>" 0 "\<lambda>_. 0"]
    config_errors [of 0 "[[0]]" "\<lparr>ints = sconst 0, unifs = sconst 0\<rparr>" 5 "\<lambda>_. 0"]
    config_errors [of 2 "[[0], [1]]" "\<lparr>ints = sconst 0, unifs = sconst 0\<rparr>" 0 "\<lambda>_. 0"]
  by simp

text \<open>The claim as stated fails: k = 3 centers are asked of n = 2 points with m = 0, and
  \<open>kmc2\<close> returns three centers.\<close>

theorem config_not_rejected:
  "int (length [[0 :: real], [1]]) < 3 \<and> (0 :: int) < 1 \<and>
   kmc2 [[0], [1]] 3 0 \<lparr>ints = sconst 0, unifs = sconst 0\<rparr> =
     Inr ([[0], [0], [0]], \<lparr>ints = sconst 0, unifs = sconst 0\<rparr>)"
  by (simp add: kmc2_def first_center_def choice_def np_zeros_def shape1_def kmc2_iter_def
      closest_def upt_conv_Cons) (simp add: numeral_3_eq_3)

subsection \<open>The proposal distribution\<close>




subsection \<open>The memo table\<close>

text \<open>
  C3. \<open>afkmc2_mem\<close> is to return what \<open>afkmc2\<close> returns on the same draws. It does when
  its table starts with zeros (\<open>afkmc2_mem_zero\<close>); the table comes from \<open>np.empty\<close>, and on
  a table that starts with the value 1 in every cell the two procedures return different
  centers: the stale cells are read as distances.
\<close>

theorem memo_junk_changes_centers:
  "afkmc2 [[0], [1], [3]] 2 2 \<lparr>ints = 0 ## 1 ## sconst 0, unifs = sconst 0\<rparr> =
     Inr ([[0], [1]], \<lparr>ints = sconst 0, unifs = sconst 0\<rparr>) \<and>
   afkmc2_mem (\<lambda>_. 1) [[0], [1], [3]] 2 2 \<lparr>ints = 0 ## 1 ## sconst 0, unifs = sconst 0\<rparr> =
     Inr ([[0], [0]], \<lparr>ints = sconst 0, unifs = sconst 0\<rparr>)"
proof -
  have a: "afkmc2 [[0], [1], [3]] 2 2 \<lparr>ints = 0 ## 1 ## sconst 0, unifs = sconst 0\<rparr> =
     Inr ([[0], [1]], \<lparr>ints = sconst 0, unifs = sconst 0\<rparr>)"
    by (simp add: afkmc2_def first_center_def choice_def np_zeros_def shape1_def afkmc2_iter_def
        afkmc2_step_def afkmc2_q_def proposal_def choice_p_def valid_p_def closest_def dist2_eq
        uniform_def signed_inf_def upt_conv_Cons) (simp add: numeral_2_eq_2)
  have b: "afkmc2_mem (\<lambda>_. 1) [[0], [1], [3]] 2 2 \<lparr>ints = 0 ## 1 ## sconst 0, unifs = sconst 0\<rparr> =
     Inr ([[0], [0]], \<lparr>ints = sconst 0, unifs = sconst 0\<rparr>)"
    by (simp add: afkmc2_mem_def first_center_def choice_def np_zeros_def shape1_def
        afkmc2_mem_iter_def afkmc2_mem_step_def afkmc2_mem_q_def proposal_def choice_p_def
        valid_p_def closest_mem_def distance_def dist2_eq uniform_def signed_inf_def
        upt_conv_Cons) (simp add: numeral_2_eq_2)
  from a b show ?thesis ..
qed

text \<open>
  C9. \<open>distance(i, j)\<close> is to return the squared distance of \<open>X[i]\<close> to center j. A cell of
  the uninitialised table that is not zero is returned as it is: with 5 in the cell,
  \<open>distance(1, 0)\<close> is 5 where the squared distance is 1.
\<close>

theorem distance_returns_junk:
  "distance [[0], [1]] [[0], [0]] (\<lambda>_. 5) 1 0 = (5, \<lambda>_. 5) \<and> dist2 ([[0], [1]] ! 1) ([[0], [0]] ! 0) = 1"
  by (simp add: distance_def dist2_eq)

subsection \<open>The chains of kmc2\<close>

text \<open>
  C6. For every arithmetic, a dataset with a row, \<open>1 \<le> k\<close>, \<open>1 \<le> m\<close> and draws of numpy's,
  \<open>kmc2\<close> returns what \<open>spec_kmc2\<close> describes: after the first center, k - 1 chains, one
  for each of the slots 1, ..., k - 1 (\<open>fill\<close>). The chain of a slot (\<open>spec_kmc2_slot\<close>,
  \<open>walk\<close>) starts from the next index drawn and its least squared distance to the centers
  chosen so far (\<open>min_dist\<close>); it makes m - 1 steps, each with the next index y and the
  next number u drawn, and goes to y with its distance \<open>dy2\<close> exactly when \<open>dy2/dx2 > u\<close>,
  the quotient and the distances being those of the arithmetic; the point at the last
  index of the chain is stored as the center of the slot. A chain takes m indices and
  m - 1 numbers from the random source.
\<close>

theorem kmc2_chains:
  "draws_ok_fl (length X) g \<and> X \<noteq> [] \<and> 1 \<le> k \<and> 1 \<le> m \<longrightarrow>
     kmc2_fl ar X k m g = Inr (spec_kmc2 ar X (nat k) (nat m) g)"
  using kmc2_fl_eq by blast

theorem kmc2_chains_witness:
  "draws_ok_fl (length [[0 :: real], [1], [3]])
     \<lparr>index_draws = 1 ## 0 ## 2 ## sconst 0, weighted_draws = sconst (\<lambda>_. 0),
      unit_draws = sconst (1 / 2)\<rparr> \<and>
   [[0 :: real], [1], [3]] \<noteq> [] \<and> (1 :: int) \<le> 2 \<and> (1 :: int) \<le> 3 \<and>
   kmc2_fl real_arith [[0], [1], [3]] 2 3
     \<lparr>index_draws = 1 ## 0 ## 2 ## sconst 0, weighted_draws = sconst (\<lambda>_. 0),
      unit_draws = sconst (1 / 2)\<rparr> =
     Inr ([[1], [3]],
          \<lparr>index_draws = sconst 0, weighted_draws = sconst (\<lambda>_. 0), unit_draws = sconst (1 / 2)\<rparr>)"
proof -
  let ?g = "\<lparr>index_draws = 1 ## 0 ## 2 ## sconst 0, weighted_draws = sconst (\<lambda>_. 0),
      unit_draws = sconst (1 / 2 :: real)\<rparr>"
  have ok: "draws_ok_fl (length [[0 :: real], [1], [3]]) ?g"
    by (simp add: draws_ok_fl_def)
  have d: "min_dist real_arith [[1], [0]] (Suc 0) [0] = Fin 1"
    "min_dist real_arith [[1], [0]] (Suc 0) [3] = Fin 4"
    by (simp_all add: min_dist_def real_arith_simps dist2_eq)
  have sp: "spec_kmc2 real_arith [[0], [1], [3]] (nat 2) (nat 3) ?g =
      ([[1], [3]],
       \<lparr>index_draws = sconst 0, weighted_draws = sconst (\<lambda>_. 0), unit_draws = sconst (1 / 2)\<rparr>)"
    by (simp add: spec_kmc2_def spec_kmc2_slot_def walk_def d skip_fl_def np_zeros_def
        shape1_def numeral_2_eq_2 numeral_3_eq_3 real_arith_simps)
  show ?thesis
    using ok sp kmc2_chains [of "[[0], [1], [3]]" ?g 2 3 real_arith]
    by simp
qed

subsection \<open>The chain step of afkmc2\<close>

text \<open>
  C5. For every arithmetic, a dataset with a row, \<open>1 \<le> k\<close>, \<open>1 \<le> m\<close>, draws of numpy's and
  a proposal distribution q that \<open>np.random.choice\<close> accepts, \<open>afkmc2\<close> returns what
  \<open>spec_afkmc2\<close> describes: k - 1 chains (\<open>spec_afkmc2_slot\<close>, \<open>walk\<close>) whose indices are
  those that \<open>np.random.choice\<close> draws with the vector q. In a chain for slot i, at the
  index x with the squared distance \<open>dx2\<close>, a step takes the index y drawn next with q and
  the next number u drawn, computes \<open>dy2\<close>, the least squared distance of \<open>X[y]\<close> to the i
  centers chosen so far, and goes to \<open>(y, dy2)\<close> exactly when \<open>(dy2 q(x))/(dx2 q(y)) > u\<close>,
  the products and the quotient being those of the arithmetic; otherwise the chain stays
  at \<open>(x, dx2)\<close>. A quotient of at least 1 moves the chain whatever u of [0, 1) is drawn.
\<close>

theorem afkmc2_chain_step:
  "draws_ok_fl (length X) g \<and> X \<noteq> [] \<and> 1 \<le> k \<and> 1 \<le> m \<and>
   q = afkmc2_q_fl ar X (X ! shd (index_draws g)) \<and> fl_accepts ar q \<and>
   0 < i \<and> draws_ok_fl (length X) h \<longrightarrow>
     afkmc2_fl ar X k m g = Inr (spec_afkmc2 ar X (nat k) (nat m) g) \<and>
     (let y = shd (weighted_draws h) q; u = shd (unit_draws h);
          dy2 = min_dist ar centers i (X ! y);
          ratio = fl_div ar (fl_mul ar dy2 (q ! x)) (fl_mul ar dx2 (q ! y)) in
        afkmc2_step_fl ar X q centers i (x, dx2, h) =
          Inr (if np_gt ratio (Fin u) then (y, dy2, skip_fl 0 1 1 h)
               else (x, dx2, skip_fl 0 1 1 h)) \<and>
        y < length X \<and>
        closest_fl ar centers i (X ! y) = Inr dy2 \<and>
        (np_ge ratio (Fin 1) \<longrightarrow> np_gt ratio (Fin u)))"
proof (intro impI, elim conjE)
  assume ok: "draws_ok_fl (length X) g" and ne: "X \<noteq> []" and k: "1 \<le> k" and m: "1 \<le> m"
    and q: "q = afkmc2_q_fl ar X (X ! shd (index_draws g))" and acc: "fl_accepts ar q"
    and i: "0 < i" and okh: "draws_ok_fl (length X) h"
  let ?y = "shd (weighted_draws h) q" and ?u = "shd (unit_draws h)"
  let ?dy2 = "min_dist ar centers i (X ! ?y)"
  let ?ratio = "fl_div ar (fl_mul ar ?dy2 (q ! x)) (fl_mul ar dx2 (q ! ?y))"
  have len: "length q = length X" by (simp add: q length_afkmc2_q_fl)
  have 1: "afkmc2_fl ar X k m g = Inr (spec_afkmc2 ar X (nat k) (nat m) g)"
    using ok ne k m acc [unfolded q] by (rule afkmc2_fl_eq)
  have 2: "afkmc2_step_fl ar X q centers i (x, dx2, h) =
          Inr (if np_gt ?ratio (Fin ?u) then (?y, ?dy2, skip_fl 0 1 1 h)
               else (x, dx2, skip_fl 0 1 1 h))"
    by (rule afkmc2_step_fl_eq [OF okh ne i len acc])
  have 3: "?y < length X" using okh by (rule draws_ok_fl_weighted)
  have 4: "closest_fl ar centers i (X ! ?y) = Inr ?dy2"
    using i by (rule closest_fl_min_dist)
  have u: "?u < 1" using okh by (simp add: draws_ok_fl_def shd_sset)
  have 5: "np_gt ?ratio (Fin ?u)" if "np_ge ?ratio (Fin 1)"
    using that u by (rule np_ge_one_gt)
  show "afkmc2_fl ar X k m g = Inr (spec_afkmc2 ar X (nat k) (nat m) g) \<and>
     (let y = shd (weighted_draws h) q; u = shd (unit_draws h);
          dy2 = min_dist ar centers i (X ! y);
          ratio = fl_div ar (fl_mul ar dy2 (q ! x)) (fl_mul ar dx2 (q ! y)) in
        afkmc2_step_fl ar X q centers i (x, dx2, h) =
          Inr (if np_gt ratio (Fin u) then (y, dy2, skip_fl 0 1 1 h)
               else (x, dx2, skip_fl 0 1 1 h)) \<and>
        y < length X \<and>
        closest_fl ar centers i (X ! y) = Inr dy2 \<and>
        (np_ge ratio (Fin 1) \<longrightarrow> np_gt ratio (Fin u)))"
    unfolding Let_def using 1 2 3 4 5 by blast
qed

theorem afkmc2_chain_step_witness:
  "draws_ok_fl (length [[0 :: real], [1], [3]])
     \<lparr>index_draws = sconst 0, weighted_draws = (\<lambda>_. 1) ## (\<lambda>_. 2) ## sconst (\<lambda>_. 0),
      unit_draws = sconst (1 / 2)\<rparr> \<and>
   [[0 :: real], [1], [3]] \<noteq> [] \<and> (1 :: int) \<le> 2 \<and> (1 :: int) \<le> 2 \<and>
   afkmc2_q_fl real_arith [[0], [1], [3]] [0] = [Fin (1 / 6), Fin (13 / 60), Fin (37 / 60)] \<and>
   fl_accepts real_arith [Fin (1 / 6), Fin (13 / 60), Fin (37 / 60)] \<and>
   (0 :: nat) < 1 \<and>
   draws_ok_fl (length [[0 :: real], [1], [3]])
     \<lparr>index_draws = sconst 0, weighted_draws = (\<lambda>_. 2) ## sconst (\<lambda>_. 0),
      unit_draws = sconst (1 / 2)\<rparr> \<and>
   afkmc2_fl real_arith [[0], [1], [3]] 2 2
     \<lparr>index_draws = sconst 0, weighted_draws = (\<lambda>_. 1) ## (\<lambda>_. 2) ## sconst (\<lambda>_. 0),
      unit_draws = sconst (1 / 2)\<rparr> =
     Inr ([[0], [3]],
          \<lparr>index_draws = sconst 0, weighted_draws = sconst (\<lambda>_. 0), unit_draws = sconst (1 / 2)\<rparr>) \<and>
   afkmc2_step_fl real_arith [[0], [1], [3]] [Fin (1 / 6), Fin (13 / 60), Fin (37 / 60)]
       [[0], [0]] 1
       (1, Fin 1, \<lparr>index_draws = sconst 0, weighted_draws = (\<lambda>_. 2) ## sconst (\<lambda>_. 0),
                   unit_draws = sconst (1 / 2)\<rparr>) =
     Inr (2, Fin 9,
          \<lparr>index_draws = sconst 0, weighted_draws = sconst (\<lambda>_. 0), unit_draws = sconst (1 / 2)\<rparr>)"
proof -
  let ?X = "[[0 :: real], [1], [3]]"
  let ?g = "\<lparr>index_draws = sconst 0, weighted_draws = (\<lambda>_. 1) ## (\<lambda>_. 2) ## sconst (\<lambda>_. 0),
      unit_draws = sconst (1 / 2 :: real)\<rparr>"
  let ?h = "\<lparr>index_draws = sconst 0, weighted_draws = (\<lambda>_. 2) ## sconst (\<lambda>_. 0),
      unit_draws = sconst (1 / 2 :: real)\<rparr>"
  let ?q = "[Fin (1 / 6), Fin (13 / 60), Fin (37 / 60)]"
  have ok: "draws_ok_fl (length ?X) ?g" "draws_ok_fl (length ?X) ?h"
    by (simp_all add: draws_ok_fl_def)
  have q: "afkmc2_q_fl real_arith ?X [0] = ?q"
    by (simp add: afkmc2_q_fl_eq real_arith_simps dist2_eq)
  have acc: "fl_accepts real_arith ?q"
    by (simp add: real_arith_simps valid_p_def)
  have d: "min_dist real_arith [[0], [0]] (Suc 0) [1] = Fin 1"
    "min_dist real_arith [[0], [0]] (Suc 0) [3] = Fin 9"
    by (simp_all add: min_dist_def real_arith_simps dist2_eq)
  have sp: "spec_afkmc2 real_arith ?X (nat 2) (nat 2) ?g =
      ([[0], [3]],
       \<lparr>index_draws = sconst 0, weighted_draws = sconst (\<lambda>_. 0), unit_draws = sconst (1 / 2)\<rparr>)"
    by (simp add: spec_afkmc2_def spec_afkmc2_slot_def walk_def q d skip_fl_def np_zeros_def
        shape1_def numeral_2_eq_2 real_arith_simps)
  show ?thesis
    using ok q acc sp
      afkmc2_chain_step [of ?X ?g 2 2 ?q real_arith 1 ?h "[[0], [0]]" 1 "Fin 1"]
    by (simp add: Let_def d skip_fl_def real_arith_simps)
qed

subsection \<open>The selection of kmpp\<close>

text \<open>
  C7. For every arithmetic, \<open>kmpp\<close> returns what \<open>spec_kmpp\<close> describes: for each of the
  slots 1, ..., k - 1, with the next number r drawn, the index selected is the least
  index of the dataset whose cumulated normalised \<open>D2\<close> (\<open>spec_cumprob\<close>, the quotients
  \<open>D2[j]/\<Sum>D2\<close> added in the order of the dataset) is \<open>\<ge> r\<close>: it is \<open>\<ge> r\<close> there and at no
  earlier index, so that the earliest of several candidates wins, and the point at that
  index is stored as the center of the slot. When the cumulated value is \<open>\<ge> r\<close> at no
  index (it is nan, or rounding leaves the last one below r), nothing is selected and
  the call ends with \<open>IndexError\<close>.
\<close>

theorem kmpp_inverse_cdf:
  "draws_ok_fl (length X) g \<and> X \<noteq> [] \<and> 1 \<le> k \<and> 0 < i \<longrightarrow>
     kmpp_fl ar X k g = spec_kmpp ar X (nat k) g \<and>
     (let r = shd (unit_draws h); cum = spec_cumprob ar (map (min_dist ar centers i) X) in
        case spec_pick ar X centers i r of
          Some ind \<Rightarrow>
            kmpp_select_fl ar X centers i h = Inr (ind, skip_fl 0 0 1 h) \<and>
            ind < length X \<and> np_ge (cum ind) (Fin r) \<and> (\<forall>j<ind. \<not> np_ge (cum j) (Fin r)) \<and>
            kmpp_loop_fl ar X (i # rest) centers h =
              kmpp_loop_fl ar X rest (centers[i := X ! ind]) (skip_fl 0 0 1 h)
        | None \<Rightarrow>
            kmpp_select_fl ar X centers i h = Inl IndexError \<and>
            (\<forall>j<length X. \<not> np_ge (cum j) (Fin r)) \<and>
            kmpp_loop_fl ar X (i # rest) centers h = Inl IndexError)"
proof (intro impI, elim conjE)
  assume ok: "draws_ok_fl (length X) g" and ne: "X \<noteq> []" and k: "1 \<le> k" and i: "0 < i"
  let ?r = "shd (unit_draws h)"
  let ?cum = "spec_cumprob ar (map (min_dist ar centers i) X)"
  have 1: "kmpp_fl ar X k g = spec_kmpp ar X (nat k) g"
    using ok ne k by (rule kmpp_fl_eq)
  note sel = kmpp_select_fl_eq [OF i, of ar X centers h]
  have 2: "case spec_pick ar X centers i ?r of
          Some ind \<Rightarrow>
            kmpp_select_fl ar X centers i h = Inr (ind, skip_fl 0 0 1 h) \<and>
            ind < length X \<and> np_ge (?cum ind) (Fin ?r) \<and> (\<forall>j<ind. \<not> np_ge (?cum j) (Fin ?r)) \<and>
            kmpp_loop_fl ar X (i # rest) centers h =
              kmpp_loop_fl ar X rest (centers[i := X ! ind]) (skip_fl 0 0 1 h)
        | None \<Rightarrow>
            kmpp_select_fl ar X centers i h = Inl IndexError \<and>
            (\<forall>j<length X. \<not> np_ge (?cum j) (Fin ?r)) \<and>
            kmpp_loop_fl ar X (i # rest) centers h = Inl IndexError"
  proof (cases "spec_pick ar X centers i ?r")
    case None
    then show ?thesis
      using sel spec_pick_None [of ar X centers i ?r] by simp
  next
    case (Some ind)
    then show ?thesis
      using sel spec_pick_Some [of ar X centers i ?r ind] by simp
  qed
  show "kmpp_fl ar X k g = spec_kmpp ar X (nat k) g \<and>
     (let r = shd (unit_draws h); cum = spec_cumprob ar (map (min_dist ar centers i) X) in
        case spec_pick ar X centers i r of
          Some ind \<Rightarrow>
            kmpp_select_fl ar X centers i h = Inr (ind, skip_fl 0 0 1 h) \<and>
            ind < length X \<and> np_ge (cum ind) (Fin r) \<and> (\<forall>j<ind. \<not> np_ge (cum j) (Fin r)) \<and>
            kmpp_loop_fl ar X (i # rest) centers h =
              kmpp_loop_fl ar X rest (centers[i := X ! ind]) (skip_fl 0 0 1 h)
        | None \<Rightarrow>
            kmpp_select_fl ar X centers i h = Inl IndexError \<and>
            (\<forall>j<length X. \<not> np_ge (cum j) (Fin r)) \<and>
            kmpp_loop_fl ar X (i # rest) centers h = Inl IndexError)"
    unfolding Let_def using 1 2 by (rule conjI)
qed

theorem kmpp_inverse_cdf_witness:
  "draws_ok_fl (length [[0 :: real], [1], [1], [3]])
     \<lparr>index_draws = sconst 0, weighted_draws = sconst (\<lambda>_. 0), unit_draws = sconst (1 / 11)\<rparr> \<and>
   [[0 :: real], [1], [1], [3]] \<noteq> [] \<and> (1 :: int) \<le> 2 \<and> (0 :: nat) < 1 \<and>
   kmpp_fl real_arith [[0], [1], [1], [3]] 2
     \<lparr>index_draws = sconst 0, weighted_draws = sconst (\<lambda>_. 0), unit_draws = sconst (1 / 11)\<rparr> =
     Inr ([[0], [1]],
          \<lparr>index_draws = sconst 0, weighted_draws = sconst (\<lambda>_. 0),
           unit_draws = sconst (1 / 11)\<rparr>) \<and>
   kmpp_select_fl real_arith [[0], [1], [1], [3]] [[0], [0]] 1
     \<lparr>index_draws = sconst 0, weighted_draws = sconst (\<lambda>_. 0), unit_draws = sconst (1 / 11)\<rparr> =
     Inr (1, \<lparr>index_draws = sconst 0, weighted_draws = sconst (\<lambda>_. 0),
              unit_draws = sconst (1 / 11)\<rparr>)"
proof -
  let ?X = "[[0 :: real], [1], [1], [3]]"
  let ?g = "\<lparr>index_draws = sconst 0, weighted_draws = sconst (\<lambda>_. 0),
             unit_draws = sconst (1 / 11 :: real)\<rparr>"
  have ok: "draws_ok_fl (length ?X) ?g"
    by (simp add: draws_ok_fl_def)
  have d: "min_dist real_arith [[0], [0]] (Suc 0) [0] = Fin 0"
    "min_dist real_arith [[0], [0]] (Suc 0) [1] = Fin 1"
    "min_dist real_arith [[0], [0]] (Suc 0) [3] = Fin 9"
    by (simp_all add: min_dist_def real_arith_simps dist2_eq)
  have l: "[0..<4] = [0, 1, 2, 3]"
    by (simp add: upt_conv_Cons)
  have p: "spec_pick real_arith ?X [[0], [0]] (Suc 0) (1 / 11) = Some 1"
    by (simp add: spec_pick_def spec_cumprob_def d l real_arith_simps)
  have sp: "spec_kmpp real_arith ?X (nat 2) ?g = Inr ([[0], [1]], ?g)"
    by (simp add: spec_kmpp_def p skip_fl_def np_zeros_def shape1_def numeral_2_eq_2)
  show ?thesis
    using ok sp p
      kmpp_inverse_cdf [of ?X ?g 2 1 real_arith ?g "[[0], [0]]" "[]"]
    by (simp add: Let_def skip_fl_def)
qed

subsection \<open>The centers returned\<close>




subsection \<open>Datasets whose distances sum to zero\<close>

text \<open>
  C8, as amended. No procedure looks at the sum before it divides. On a dataset whose
  points all equal the point p, with \<open>2 \<le> k\<close>: \<open>kmpp\<close> divides, gets probabilities that are
  nan, and ends with the \<open>IndexError\<close> of the index search that finds nothing; \<open>kmc2\<close>
  computes \<open>dy2/dx2 = 0/0\<close>, a nan that is above no u, never moves, and returns k copies
  of p without an error.
\<close>

theorem zero_sum_distances:
  "draws_ok (length X) g \<and> X \<noteq> [] \<and> (\<forall>x \<in> set X. x = p) \<and> 2 \<le> k \<and> 1 \<le> m \<longrightarrow>
     kmpp X k g = Inl IndexError \<and>
     (\<exists>g'. kmc2 X k m g = Inr (replicate (nat k) p, g'))"
proof (intro impI, elim conjE)
  assume ok: "draws_ok (length X) g" and ne: "X \<noteq> []" and all: "\<forall>x \<in> set X. x = p"
    and k: "2 \<le> k" and m: "1 \<le> m"
  let ?cs0 = "(np_zeros (nat k) (shape1 X))[0 := X ! shd (ints g)]"
  have c: "shd (ints g) < length X" using ok by (rule draws_ok_shd)
  have fc: "first_center X k g = Inr (?cs0, g\<lparr>ints := stl (ints g)\<rparr>)"
    using ok ne k by (simp add: first_center_ok)
  have c0: "?cs0 ! 0 = p" using k all c by (simp add: np_zeros_def)
  have "min_d2 ?cs0 1 x = 0" if "x \<in> set X" for x
    using that all c0 by (simp add: min_d2_def lessThan_Suc dist2_self)
  then have sel: "kmpp_select X ?cs0 1 (g\<lparr>ints := stl (ints g)\<rparr>) = Inl IndexError"
    by (intro kmpp_select_degenerate) simp_all
  have l: "[1..<nat k] = 1 # [Suc 1..<nat k]"
    using k by (intro upt_conv_Cons) simp
  have 1: "kmpp X k g = Inl IndexError"
    by (simp only: kmpp_def fc andthen_simps prod.case l kmpp_loop.simps sel)
  obtain cs g' where r: "kmc2 X k m g = Inr (cs, g')" and len: "length cs = nat k"
    and mem: "\<forall>c \<in> set cs. c \<in> set X"
    using kmc2_ok [OF ok ne _ m, of k] k by fastforce
  have "\<forall>c \<in> set cs. c = p" using mem all by blast
  then have "replicate (length cs) p = cs" by (rule replicate_length_same)
  then have "cs = replicate (nat k) p" using len by simp
  with r 1 show "kmpp X k g = Inl IndexError \<and>
     (\<exists>g'. kmc2 X k m g = Inr (replicate (nat k) p, g'))"
    by blast
qed

theorem zero_sum_distances_witness:
  "draws_ok (length [[0 :: real], [0]]) \<lparr>ints = sconst 0, unifs = sconst 0\<rparr> \<and>
   [[0 :: real], [0]] \<noteq> [] \<and> [0 :: real] = [0] \<and> (2 :: int) \<le> 2 \<and> (1 :: int) \<le> 2 \<and>
   kmpp [[0], [0]] 2 \<lparr>ints = sconst 0, unifs = sconst 0\<rparr> = Inl IndexError \<and>
   fst (projr (kmc2 [[0], [0]] 2 2 \<lparr>ints = sconst 0, unifs = sconst 0\<rparr>)) = [[0], [0]]"
proof -
  have ok: "draws_ok (length [[0 :: real], [0]]) \<lparr>ints = sconst 0, unifs = sconst 0\<rparr>"
    by (simp add: draws_ok_def)
  show ?thesis
    using ok zero_sum_distances [where X = "[[0], [0]]" and p = "[0]" and k = 2 and m = 2
        and g = "\<lparr>ints = sconst 0, unifs = sconst 0\<rparr>"]
    by (auto simp: numeral_2_eq_2)
qed

text \<open>The claim as stated fails: all points coincide with the first center, the distances
  sum to zero, and \<open>kmc2\<close> (for k = 2) and \<open>afkmc2\<close> (for k = 1, after the division that
  makes q) return centers without an error.\<close>

theorem zero_sum_not_detected:
  "kmc2 [[0], [0]] 2 2 \<lparr>ints = sconst 0, unifs = sconst 0\<rparr> =
     Inr ([[0], [0]], \<lparr>ints = sconst 0, unifs = sconst 0\<rparr>) \<and>
   afkmc2 [[0], [0]] 1 2 \<lparr>ints = sconst 0, unifs = sconst 0\<rparr> =
     Inr ([[0]], \<lparr>ints = sconst 0, unifs = sconst 0\<rparr>) \<and>
   afkmc2_q [[0], [0]] [0] = [NaN, NaN]"
proof -
  have a: "kmc2 [[0], [0]] 2 2 \<lparr>ints = sconst 0, unifs = sconst 0\<rparr> =
     Inr ([[0], [0]], \<lparr>ints = sconst 0, unifs = sconst 0\<rparr>)"
    by (simp add: kmc2_def first_center_def choice_def np_zeros_def shape1_def kmc2_iter_def
        kmc2_step_def closest_def dist2_eq uniform_def upt_conv_Cons) (simp add: numeral_2_eq_2)
  have b: "afkmc2 [[0], [0]] 1 2 \<lparr>ints = sconst 0, unifs = sconst 0\<rparr> =
     Inr ([[0]], \<lparr>ints = sconst 0, unifs = sconst 0\<rparr>)"
    by (simp add: afkmc2_def first_center_def choice_def np_zeros_def shape1_def)
  have c: "afkmc2_q [[0], [0]] [0] = [NaN, NaN]"
    by (simp add: afkmc2_q_def proposal_def dist2_eq)
  from a b c show ?thesis by blast
qed

subsection \<open>The dataset is not written\<close>

text \<open>
  C10. On the store of arrays, with X at the address \<open>aX\<close>, each of the four procedures
  does what its function of the sections above does on the array at \<open>aX\<close> and leaves the
  store it found with one array more, the centers (\<open>returns_new\<close>). So when a procedure
  returns the address \<open>ac\<close> and the store \<open>h'\<close>: the arrays that were there before the
  call, X among them, are as they were; \<open>ac\<close> is not the address of X; and writing any
  value over X afterwards leaves the centers as they are.
\<close>

theorem dataset_not_written:
  "aX < length h \<longrightarrow>
     kmpp_st h aX k g = returns_new h (kmpp (h ! aX) k g) \<and>
     kmc2_st h aX k m g = returns_new h (kmc2 (h ! aX) k m g) \<and>
     afkmc2_st h aX k m g = returns_new h (afkmc2 (h ! aX) k m g) \<and>
     afkmc2_mem_st junk h aX k m g = returns_new h (afkmc2_mem junk (h ! aX) k m g) \<and>
     (returns_new h r = Inr (ac, h', g') \<longrightarrow>
        take (length h) h' = h \<and> h' ! aX = h ! aX \<and> ac \<noteq> aX \<and>
        (\<forall>v. (h'[aX := v]) ! ac = h' ! ac) \<and> r = Inr (h' ! ac, g'))"
proof (intro impI conjI)
  assume a: "aX < length h"
  show "kmpp_st h aX k g = returns_new h (kmpp (h ! aX) k g)"
    using a by (rule kmpp_st_eq)
  show "kmc2_st h aX k m g = returns_new h (kmc2 (h ! aX) k m g)"
    using a by (rule kmc2_st_eq)
  show "afkmc2_st h aX k m g = returns_new h (afkmc2 (h ! aX) k m g)"
    using a by (rule afkmc2_st_eq)
  show "afkmc2_mem_st junk h aX k m g = returns_new h (afkmc2_mem junk (h ! aX) k m g)"
    using a by (rule afkmc2_mem_st_eq)
next
  assume a: "aX < length h" and b: "returns_new h r = Inr (ac, h', g')"
  note f = returns_new_frame [OF a b]
  show "take (length h) h' = h" using f by blast
  show "h' ! aX = h ! aX" using f by blast
  show "ac \<noteq> aX" using f by blast
  show "\<forall>v. (h'[aX := v]) ! ac = h' ! ac" using f by blast
  show "r = Inr (h' ! ac, g')" using f by blast
qed

theorem dataset_not_written_witness:
  "(0 :: nat) < length [[[0 :: real], [1]]] \<and>
   kmc2_st [[[0], [1]]] 0 2 1 \<lparr>ints = 0 ## 1 ## sconst 0, unifs = sconst 0\<rparr> =
     Inr (1, [[[0], [1]], [[0], [1]]], \<lparr>ints = sconst 0, unifs = sconst 0\<rparr>) \<and>
   ([[[0], [1]], [[0 :: real], [1]]][0 := [[7], [7]]]) ! 1 = [[0], [1]]"
proof -
  have r: "kmc2 [[0], [1]] 2 1 \<lparr>ints = 0 ## 1 ## sconst 0, unifs = sconst 0\<rparr> =
      Inr ([[0], [1]], \<lparr>ints = sconst 0, unifs = sconst 0\<rparr>)"
    by (simp add: kmc2_def first_center_def choice_def np_zeros_def shape1_def kmc2_iter_def
        closest_def dist2_eq upt_conv_Cons) (simp add: numeral_2_eq_2)
  have "(0 :: nat) < length [[[0 :: real], [1]]]" by simp
  from r dataset_not_written [where h = "[[[0], [1]]]" and aX = 0 and k = 2 and m = 1
        and g = "\<lparr>ints = 0 ## 1 ## sconst 0, unifs = sconst 0\<rparr>",
        THEN mp, OF this, THEN conjunct2, THEN conjunct1]
  show ?thesis
    by (simp add: returns_new_def)
qed

end
